theory Spec2Isabelle
  imports
    Complex_Main
    "HOL-Library.Multiset"
    "HOL-Library.Char_ord"
    "HOL-Library.List_Lexorder"
    "HOL-Library.Log_Nat"
    "HOL-Library.Word"
    "HOL-Library.AList"
begin

section \<open>Go's float64, as far as the catalog uses it\<close>

text \<open>
  \<open>Price\<close> is a Go \<open>float64\<close>, and the conversion ratio and the revenue are computed in
  \<open>float64\<close>. A value is a rational number (every finite double is one), an infinity or
  NaN. The two zeros are identified: the program only compares floats and multiplies and
  divides them, and its one division has a divisor converted from a non-zero integer, so
  the sign of a zero is never observed.
\<close>

datatype float64 = Fin rat | PosInf | NegInf | NaN

definition pow2 :: "int \<Rightarrow> rat" where
  "pow2 e = (if 0 \<le> e then 2 ^ nat e else 1 / 2 ^ nat (- e))"

definition round_half_even :: "rat \<Rightarrow> int" where
  "round_half_even q =
     (let f = \<lfloor>q\<rfloor>; r = q - of_int f
      in if r < 1 / 2 then f
         else if 1 / 2 < r then f + 1
         else if even f then f else f + 1)"

text \<open>\<open>ilog2 q\<close> is the exponent \<open>e\<close> with \<open>2\<^sup>e \<le> q < 2\<^sup>e\<^sup>+\<^sup>1\<close>, for a positive \<open>q\<close>.\<close>

definition ilog2 :: "rat \<Rightarrow> int" where
  "ilog2 q =
     (let (n, d) = quotient_of q;
          k = bitlen n - bitlen d
      in if pow2 k \<le> q then k else k - 1)"

text \<open>
  Rounding of an exact result to the nearest double, ties to even: 53 bits of mantissa,
  gradual underflow below \<open>2\<^sup>-\<^sup>1\<^sup>0\<^sup>2\<^sup>2\<close>, overflow to an infinity from \<open>2\<^sup>1\<^sup>0\<^sup>2\<^sup>4\<close> on.
\<close>

definition float64_round :: "rat \<Rightarrow> float64" where
  "float64_round q =
     (if q = 0 then Fin 0
      else
        let e = max (ilog2 \<bar>q\<bar>) (- 1022);
            ulp = pow2 (e - 52);
            r = of_int (round_half_even (\<bar>q\<bar> / ulp)) * ulp
        in if pow2 1024 \<le> r then (if 0 < q then PosInf else NegInf)
           else Fin (sgn q * r))"

definition f64_of_int :: "int \<Rightarrow> float64" where
  "f64_of_int n = float64_round (of_int n)"

fun f64_lt :: "float64 \<Rightarrow> float64 \<Rightarrow> bool" where
  "f64_lt NaN _ = False"
| "f64_lt _ NaN = False"
| "f64_lt (Fin a) (Fin b) = (a < b)"
| "f64_lt _ NegInf = False"
| "f64_lt NegInf _ = True"
| "f64_lt PosInf _ = False"
| "f64_lt _ PosInf = True"

definition f64_gt :: "float64 \<Rightarrow> float64 \<Rightarrow> bool" where
  "f64_gt a b = f64_lt b a"

text \<open>Go's \<open>!=\<close> on floats: NaN differs from everything, itself included.\<close>

definition f64_ne :: "float64 \<Rightarrow> float64 \<Rightarrow> bool" where
  "f64_ne a b = (a = NaN \<or> b = NaN \<or> a \<noteq> b)"

definition f64_le :: "float64 \<Rightarrow> float64 \<Rightarrow> bool" where
  "f64_le a b = (a \<noteq> NaN \<and> b \<noteq> NaN \<and> (a = b \<or> f64_lt a b))"

definition f64_ge :: "float64 \<Rightarrow> float64 \<Rightarrow> bool" where
  "f64_ge a b = f64_le b a"

definition signed_inf :: "bool \<Rightarrow> float64" where
  "signed_inf positive = (if positive then PosInf else NegInf)"

fun f64_mul :: "float64 \<Rightarrow> float64 \<Rightarrow> float64" where
  "f64_mul NaN _ = NaN"
| "f64_mul _ NaN = NaN"
| "f64_mul (Fin a) (Fin b) = float64_round (a * b)"
| "f64_mul (Fin a) PosInf = (if a = 0 then NaN else signed_inf (0 < a))"
| "f64_mul (Fin a) NegInf = (if a = 0 then NaN else signed_inf (a < 0))"
| "f64_mul PosInf (Fin b) = (if b = 0 then NaN else signed_inf (0 < b))"
| "f64_mul NegInf (Fin b) = (if b = 0 then NaN else signed_inf (b < 0))"
| "f64_mul PosInf PosInf = PosInf"
| "f64_mul PosInf NegInf = NegInf"
| "f64_mul NegInf PosInf = NegInf"
| "f64_mul NegInf NegInf = PosInf"

fun f64_div :: "float64 \<Rightarrow> float64 \<Rightarrow> float64" where
  "f64_div NaN _ = NaN"
| "f64_div _ NaN = NaN"
| "f64_div (Fin a) (Fin b) =
     (if b = 0 then (if a = 0 then NaN else signed_inf (0 < a))
      else float64_round (a / b))"
| "f64_div (Fin a) _ = Fin 0"
| "f64_div PosInf (Fin b) = signed_inf (0 \<le> b)"
| "f64_div NegInf (Fin b) = signed_inf (b < 0)"
| "f64_div _ _ = NaN"

section \<open>The catalog domain: \<open>product.go\<close>\<close>

text \<open>
  \<open>ProductID\<close> is an \<open>int64\<close>; the two counts are Go \<open>int\<close>s, 64 bits wide on the
  platforms Go 1.21 is run on. They are 64-bit words read as signed numbers (\<open>sint\<close>).
  \<open>CreatedAt\<close> is a \<open>time.Time\<close>, modelled by its instant in nanoseconds since Go's
  zero time, so that \<open>IsZero\<close> is \<open>= 0\<close> and \<open>Equal\<close>, \<open>Before\<close> and \<open>After\<close> compare
  instants. \<open>Name\<close> is a Go string, a sequence of bytes.
\<close>

type_synonym Time = int

type_synonym int64 = "64 word"

record Product =
  ID :: int64
  Name :: string
  Price :: float64
  CreatedAt :: Time
  SalesCount :: int64
  ViewsCount :: int64

definition SalesConversionRatio :: "Product \<Rightarrow> float64" where
  "SalesConversionRatio p =
     (if ViewsCount p = 0 then Fin 0
      else f64_div (f64_of_int (sint (SalesCount p))) (f64_of_int (sint (ViewsCount p))))"

definition RevenueGenerated :: "Product \<Rightarrow> float64" where
  "RevenueGenerated p = f64_mul (Price p) (f64_of_int (sint (SalesCount p)))"

section \<open>The comparators of the sorters\<close>

text \<open>
  Each sorter hands \<open>sort.Slice\<close> a closure \<open>func(i, j int) bool\<close> that reads
  \<open>sorted[i]\<close> and \<open>sorted[j]\<close>. The functions below are the bodies of these closures,
  on the two elements read. \<open>strings.ToLower\<close> is modelled on ASCII: the bytes
  \<open>A\<close> to \<open>Z\<close> are mapped to \<open>a\<close> to \<open>z\<close>, every other byte is kept. On a name
  with letters outside ASCII, or with bytes that are not valid UTF-8, the library
  does more (it lower-cases those letters and replaces the invalid bytes); no
  statement below depends on what \<open>ToLower\<close> returns, only on its being a function of
  the name.
\<close>

definition toLower_byte :: "char \<Rightarrow> char" where
  "toLower_byte c =
     (if CHR ''A'' \<le> c \<and> c \<le> CHR ''Z'' then char_of (of_char c + (32::nat)) else c)"

definition ToLower :: "string \<Rightarrow> string" where
  "ToLower s = map toLower_byte s"

definition PriceSorter_less :: "bool \<Rightarrow> Product \<Rightarrow> Product \<Rightarrow> bool" where
  "PriceSorter_less ascending a b =
     (if ascending then f64_lt (Price a) (Price b) else f64_gt (Price a) (Price b))"

definition CreatedAtSorter_less :: "bool \<Rightarrow> Product \<Rightarrow> Product \<Rightarrow> bool" where
  "CreatedAtSorter_less ascending a b =
     (let timeI = CreatedAt a; timeJ = CreatedAt b
      in if timeI \<noteq> timeJ then (if ascending then timeI < timeJ else timeJ < timeI)
         else sint (ID a) < sint (ID b))"

definition NameSorter_less :: "Product \<Rightarrow> Product \<Rightarrow> bool" where
  "NameSorter_less a b =
     (let nameI = ToLower (Name a); nameJ = ToLower (Name b)
      in if nameI \<noteq> nameJ then nameI < nameJ else sint (ID a) < sint (ID b))"

definition SalesConversionRatioSorter_less :: "Product \<Rightarrow> Product \<Rightarrow> bool" where
  "SalesConversionRatioSorter_less a b =
     (let ratioI = SalesConversionRatio a; ratioJ = SalesConversionRatio b
      in if f64_ne ratioI ratioJ then f64_gt ratioI ratioJ
         else if SalesCount a \<noteq> SalesCount b then sint (SalesCount b) < sint (SalesCount a)
         else sint (ID a) < sint (ID b))"

definition PopularitySorter_less :: "Product \<Rightarrow> Product \<Rightarrow> bool" where
  "PopularitySorter_less a b =
     (if ViewsCount a \<noteq> ViewsCount b then sint (ViewsCount b) < sint (ViewsCount a)
      else if SalesCount a \<noteq> SalesCount b then sint (SalesCount b) < sint (SalesCount a)
      else sint (ID a) < sint (ID b))"

definition RevenueSorter_less :: "Product \<Rightarrow> Product \<Rightarrow> bool" where
  "RevenueSorter_less a b =
     (let revenueI = RevenueGenerated a; revenueJ = RevenueGenerated b
      in if f64_ne revenueI revenueJ then f64_gt revenueI revenueJ
         else if SalesCount a \<noteq> SalesCount b then sint (SalesCount b) < sint (SalesCount a)
         else sint (ID a) < sint (ID b))"

section \<open>The sort of Go's library: \<open>sort.Slice\<close>\<close>

text \<open>
  \<open>sort.Slice(x, less)\<close> sorts the slice \<open>x\<close> in place, by swaps only. The library
  (Go 1.21, \<open>zsortfunc.go\<close>) runs \<open>insertionSort_func\<close> on a slice of at most 12
  elements:
  \<^verbatim>\<open>
  for i := a + 1; i < b; i++ {
      for j := i; j > a && data.Less(j, j-1); j-- {
          data.Swap(j, j-1)
      }
  }
  \<close>
  This loop, with \<open>a = 0\<close> and \<open>b = len(x)\<close>, is the model of \<open>sort.Slice\<close>. The
  library is not part of the repository. On a slice of up to 12 elements the model is
  the library's code. On a longer slice the library chooses a pivot and partitions
  before it sorts the parts (\<open>pdqsort_func\<close>), and the model does not follow it
  there: it stands for the library as far as the library's contract goes, a
  deterministic rearrangement by swaps that is sorted when \<open>less\<close> is a strict weak
  order. What depends on the order in which the library compares, that is the place
  of items that \<open>less\<close> does not order and the result under a \<open>less\<close> that is not a
  strict weak order (a price that is NaN), is claimed below for slices of up to 12
  elements only.
\<close>

fun insertionSort_inner :: "('a \<Rightarrow> 'a \<Rightarrow> bool) \<Rightarrow> 'a list \<Rightarrow> nat \<Rightarrow> 'a list" where
  "insertionSort_inner lessf xs 0 = xs"
| "insertionSort_inner lessf xs (Suc j) =
     (if lessf (xs ! Suc j) (xs ! j)
      then insertionSort_inner lessf (xs[Suc j := xs ! j, j := xs ! Suc j]) j
      else xs)"

definition insertionSort_func :: "('a \<Rightarrow> 'a \<Rightarrow> bool) \<Rightarrow> 'a list \<Rightarrow> 'a list" where
  "insertionSort_func lessf xs = foldl (insertionSort_inner lessf) xs [1..<length xs]"

text \<open>
  Inserting \<open>x\<close> into a prefix that is held in reverse (last element first): what one
  run of the inner loop computes. It is used in the proofs only.
\<close>

fun insert_rev :: "('a \<Rightarrow> 'a \<Rightarrow> bool) \<Rightarrow> 'a \<Rightarrow> 'a list \<Rightarrow> 'a list" where
  "insert_rev lessf x [] = [x]"
| "insert_rev lessf x (y # ys) = (if lessf x y then y # insert_rev lessf x ys else x # y # ys)"

section \<open>Slices and their backing arrays\<close>

text \<open>
  A \<open>ProductCollection\<close> is a Go slice: \<open>nil\<close>, or a view of a backing array that the
  caller and the callee share. The store maps an address to the array held there;
  \<open>next_free\<close> is the first address not yet allocated. \<open>ticks\<close> counts the readings of
  the clock taken so far: \<open>time.Now()\<close> returns reading number \<open>ticks\<close> of the clock
  \<open>clk\<close> and advances the count.
\<close>

type_synonym addr = nat

datatype ProductCollection = nil | Slice addr

record world =
  heap :: "addr \<Rightarrow> Product list"
  next_free :: addr
  ticks :: nat

type_synonym clock = "nat \<Rightarrow> Time"

definition elems :: "world \<Rightarrow> ProductCollection \<Rightarrow> Product list" where
  "elems w pc = (case pc of nil \<Rightarrow> [] | Slice a \<Rightarrow> heap w a)"

definition len :: "world \<Rightarrow> ProductCollection \<Rightarrow> nat" where
  "len w pc = length (elems w pc)"

definition allocated :: "world \<Rightarrow> ProductCollection \<Rightarrow> bool" where
  "allocated w pc = (case pc of nil \<Rightarrow> True | Slice a \<Rightarrow> a < next_free w)"

text \<open>\<open>make(ProductCollection, n)\<close> followed by \<open>copy\<close>, or a slice literal: a new array.\<close>

definition alloc :: "world \<Rightarrow> Product list \<Rightarrow> world \<times> ProductCollection" where
  "alloc w xs =
     (w\<lparr>heap := (heap w)(next_free w := xs), next_free := Suc (next_free w)\<rparr>,
      Slice (next_free w))"

definition Copy :: "world \<Rightarrow> ProductCollection \<Rightarrow> world \<times> ProductCollection" where
  "Copy w pc = (case pc of nil \<Rightarrow> (w, nil) | Slice a \<Rightarrow> alloc w (heap w a))"

definition sort_Slice ::
  "world \<Rightarrow> ProductCollection \<Rightarrow> (Product \<Rightarrow> Product \<Rightarrow> bool) \<Rightarrow> world" where
  "sort_Slice w x lessf =
     (case x of nil \<Rightarrow> w
      | Slice a \<Rightarrow> w\<lparr>heap := (heap w)(a := insertionSort_func lessf (heap w a))\<rparr>)"

definition Now :: "clock \<Rightarrow> world \<Rightarrow> Time \<times> world" where
  "Now clk w = (clk (ticks w), w\<lparr>ticks := Suc (ticks w)\<rparr>)"

section \<open>Strategies: \<open>sort_strategy.go\<close>\<close>

text \<open>A \<open>SortStrategy\<close> is a string; eight values are predefined.\<close>

type_synonym SortStrategy = string

definition SortByPriceAsc :: SortStrategy where "SortByPriceAsc = ''price_asc''"
definition SortByPriceDesc :: SortStrategy where "SortByPriceDesc = ''price_desc''"
definition SortBySalesConversionRatio :: SortStrategy where
  "SortBySalesConversionRatio = ''sales_conversion_ratio''"
definition SortByCreatedAtDesc :: SortStrategy where "SortByCreatedAtDesc = ''created_at_desc''"
definition SortByCreatedAtAsc :: SortStrategy where "SortByCreatedAtAsc = ''created_at_asc''"
definition SortByPopularity :: SortStrategy where "SortByPopularity = ''popularity''"
definition SortByRevenue :: SortStrategy where "SortByRevenue = ''revenue''"
definition SortByName :: SortStrategy where "SortByName = ''name''"

definition AllSortStrategies :: "SortStrategy list" where
  "AllSortStrategies =
     [SortByPriceAsc, SortByPriceDesc, SortBySalesConversionRatio, SortByCreatedAtDesc,
      SortByCreatedAtAsc, SortByPopularity, SortByRevenue, SortByName]"

definition IsValid :: "SortStrategy \<Rightarrow> bool" where
  "IsValid s = (s \<in> set AllSortStrategies)"

section \<open>Errors\<close>

text \<open>
  The code builds its errors with \<open>fmt.Errorf\<close>. Each constructor below is one of the
  places where an error is made; \<open>Wrapped\<close> is \<open>fmt.Errorf("...: %w", err)\<close>, with
  the text put before the wrapped error. A \<open>ProductValidationError\<close> is kept as its
  field and its message (the offending value, of type \<open>interface{}\<close>, is left out).
\<close>

type_synonym ProductValidationError = "string \<times> string"

datatype error =
    ProductsNil
  | InvalidSortStrategy SortStrategy
  | UnsupportedSortStrategy SortStrategy
  | StrategiesEmpty
  | InvalidSortStrategies "SortStrategy list"
  | ProductInvalid "ProductValidationError list"
  | ProductAtIndex nat int64 error
  | CollectionInvalid "error list"
  | Wrapped string error

section \<open>Validation: \<open>product.go\<close>\<close>

text \<open>
  The constant \<open>999999.99\<close> is converted to the nearest \<open>float64\<close> where it is
  compared with a price.
\<close>

definition max_price :: float64 where
  "max_price = float64_round (99999999 / 100)"

text \<open>\<open>Product.Validate\<close>; \<open>now\<close> is the value of its one call of \<open>time.Now()\<close>.\<close>

definition Product_Validate :: "Time \<Rightarrow> Product \<Rightarrow> error option" where
  "Product_Validate now p =
     (let validationErrors =
            (if sint (ID p) \<le> 0 then [(''ID'', ''must be positive'')] else [])
          @ (if Name p = [] then [(''Name'', ''cannot be empty'')] else [])
          @ (if 255 < length (Name p) then [(''Name'', ''cannot exceed 255 characters'')]
             else [])
          @ (if f64_lt (Price p) (Fin 0) then [(''Price'', ''cannot be negative'')] else [])
          @ (if f64_gt (Price p) max_price
             then [(''Price'', ''exceeds maximum allowed value (999999.99)'')] else [])
          @ (if CreatedAt p = 0 then [(''CreatedAt'', ''must be set'')] else [])
          @ (if now < CreatedAt p then [(''CreatedAt'', ''cannot be in the future'')] else [])
          @ (if sint (SalesCount p) < 0 then [(''SalesCount'', ''cannot be negative'')]
             else [])
          @ (if sint (ViewsCount p) < 0 then [(''ViewsCount'', ''cannot be negative'')]
             else [])
          @ (if sint (ViewsCount p) < sint (SalesCount p)
             then [(''SalesCount'', ''sales count cannot exceed views count'')] else [])
      in if 0 < length validationErrors then Some (ProductInvalid validationErrors)
         else None)"

text \<open>\<open>Price.IsValid\<close>, the check of a price on its own.\<close>

definition Price_IsValid :: "float64 \<Rightarrow> bool" where
  "Price_IsValid p = (f64_ge p (Fin 0) \<and> f64_le p max_price)"

text \<open>
  The loop of \<open>ProductCollection.Validate\<close>: the product at index \<open>i\<close> is validated at
  the clock reading \<open>t\<close>, the next one at the next reading.
\<close>

fun validate_each :: "clock \<Rightarrow> nat \<Rightarrow> nat \<Rightarrow> Product list \<Rightarrow> error list" where
  "validate_each clk t i [] = []"
| "validate_each clk t i (product # rest) =
     (case Product_Validate (clk t) product of
        Some err \<Rightarrow> ProductAtIndex i (ID product) err # validate_each clk (Suc t) (Suc i) rest
      | None \<Rightarrow> validate_each clk (Suc t) (Suc i) rest)"

definition ProductCollection_Validate ::
  "clock \<Rightarrow> world \<Rightarrow> ProductCollection \<Rightarrow> world \<times> error option" where
  "ProductCollection_Validate clk w pc =
     (let validationErrors = validate_each clk (ticks w) 0 (elems w pc);
          w' = w\<lparr>ticks := ticks w + len w pc\<rparr>
      in if 0 < length validationErrors then (w', Some (CollectionInvalid validationErrors))
         else (w', None))"

text \<open>\<open>SortStrategySet.Validate\<close>.\<close>

definition SortStrategySet_Validate :: "SortStrategy list \<Rightarrow> error option" where
  "SortStrategySet_Validate strategies =
     (let invalidStrategies = filter (\<lambda>strategy. \<not> IsValid strategy) strategies
      in if 0 < length invalidStrategies then Some (InvalidSortStrategies invalidStrategies)
         else None)"

section \<open>The sorters: \<open>infrastructure/sorting\<close>\<close>

text \<open>
  Every \<open>Sort\<close> method returns the empty literal \<open>ProductCollection{}\<close> for an input of
  length 0 (a \<open>nil\<close> input has length 0 too); otherwise it copies the input and sorts
  the copy in place with its comparator. The error it returns is always \<open>nil\<close>, so
  the result is always an \<open>Inr\<close>.
\<close>

definition PriceSorter_Sort ::
  "bool \<Rightarrow> world \<Rightarrow> ProductCollection \<Rightarrow> world \<times> (error + ProductCollection)" where
  "PriceSorter_Sort ascending w products =
     (if len w products = 0 then (case alloc w [] of (w', empty_slice) \<Rightarrow> (w', Inr empty_slice))
      else
        case Copy w products of (w1, sorted_copy) \<Rightarrow>
          (sort_Slice w1 sorted_copy (PriceSorter_less ascending), Inr sorted_copy))"

definition CreatedAtSorter_Sort ::
  "bool \<Rightarrow> world \<Rightarrow> ProductCollection \<Rightarrow> world \<times> (error + ProductCollection)" where
  "CreatedAtSorter_Sort ascending w products =
     (if len w products = 0 then (case alloc w [] of (w', empty_slice) \<Rightarrow> (w', Inr empty_slice))
      else
        case Copy w products of (w1, sorted_copy) \<Rightarrow>
          (sort_Slice w1 sorted_copy (CreatedAtSorter_less ascending), Inr sorted_copy))"

definition NameSorter_Sort ::
  "world \<Rightarrow> ProductCollection \<Rightarrow> world \<times> (error + ProductCollection)" where
  "NameSorter_Sort w products =
     (if len w products = 0 then (case alloc w [] of (w', empty_slice) \<Rightarrow> (w', Inr empty_slice))
      else
        case Copy w products of (w1, sorted_copy) \<Rightarrow>
          (sort_Slice w1 sorted_copy (NameSorter_less), Inr sorted_copy))"

definition SalesConversionRatioSorter_Sort ::
  "world \<Rightarrow> ProductCollection \<Rightarrow> world \<times> (error + ProductCollection)" where
  "SalesConversionRatioSorter_Sort w products =
     (if len w products = 0 then (case alloc w [] of (w', empty_slice) \<Rightarrow> (w', Inr empty_slice))
      else
        case Copy w products of (w1, sorted_copy) \<Rightarrow>
          (sort_Slice w1 sorted_copy (SalesConversionRatioSorter_less), Inr sorted_copy))"

definition PopularitySorter_Sort ::
  "world \<Rightarrow> ProductCollection \<Rightarrow> world \<times> (error + ProductCollection)" where
  "PopularitySorter_Sort w products =
     (if len w products = 0 then (case alloc w [] of (w', empty_slice) \<Rightarrow> (w', Inr empty_slice))
      else
        case Copy w products of (w1, sorted_copy) \<Rightarrow>
          (sort_Slice w1 sorted_copy (PopularitySorter_less), Inr sorted_copy))"

definition RevenueSorter_Sort ::
  "world \<Rightarrow> ProductCollection \<Rightarrow> world \<times> (error + ProductCollection)" where
  "RevenueSorter_Sort w products =
     (if len w products = 0 then (case alloc w [] of (w', empty_slice) \<Rightarrow> (w', Inr empty_slice))
      else
        case Copy w products of (w1, sorted_copy) \<Rightarrow>
          (sort_Slice w1 sorted_copy (RevenueSorter_less), Inr sorted_copy))"

text \<open>The implementations of the interface \<open>Sorter\<close>, and the dispatch of its \<open>Sort\<close>.\<close>

datatype Sorter =
    PriceSorter bool
  | SalesConversionRatioSorter
  | CreatedAtSorter bool
  | PopularitySorter
  | RevenueSorter
  | NameSorter

fun Sort :: "Sorter \<Rightarrow> world \<Rightarrow> ProductCollection \<Rightarrow> world \<times> (error + ProductCollection)" where
  "Sort (PriceSorter ascending) w products = PriceSorter_Sort ascending w products"
| "Sort SalesConversionRatioSorter w products = SalesConversionRatioSorter_Sort w products"
| "Sort (CreatedAtSorter ascending) w products = CreatedAtSorter_Sort ascending w products"
| "Sort PopularitySorter w products = PopularitySorter_Sort w products"
| "Sort RevenueSorter w products = RevenueSorter_Sort w products"
| "Sort NameSorter w products = NameSorter_Sort w products"

text \<open>\<open>DefaultSorterFactory.CreateSorter\<close>.\<close>

definition CreateSorter :: "SortStrategy \<Rightarrow> error + Sorter" where
  "CreateSorter strategy =
     (if strategy = SortByPriceAsc then Inr (PriceSorter True)
      else if strategy = SortByPriceDesc then Inr (PriceSorter False)
      else if strategy = SortBySalesConversionRatio then Inr SalesConversionRatioSorter
      else if strategy = SortByCreatedAtDesc then Inr (CreatedAtSorter False)
      else if strategy = SortByCreatedAtAsc then Inr (CreatedAtSorter True)
      else if strategy = SortByPopularity then Inr PopularitySorter
      else if strategy = SortByRevenue then Inr RevenueSorter
      else if strategy = SortByName then Inr NameSorter
      else Inl (UnsupportedSortStrategy strategy))"

text \<open>The comparator that each sorter hands to \<open>sort.Slice\<close>, by sorter.\<close>

fun comparator :: "Sorter \<Rightarrow> Product \<Rightarrow> Product \<Rightarrow> bool" where
  "comparator (PriceSorter ascending) = PriceSorter_less ascending"
| "comparator SalesConversionRatioSorter = SalesConversionRatioSorter_less"
| "comparator (CreatedAtSorter ascending) = CreatedAtSorter_less ascending"
| "comparator PopularitySorter = PopularitySorter_less"
| "comparator RevenueSorter = RevenueSorter_less"
| "comparator NameSorter = NameSorter_less"

section \<open>Results: \<open>sort_result.go\<close>\<close>

text \<open>
  \<open>Products\<close> is a slice, so a result refers to the sorted array in the store. The two
  result types both have a field \<open>ProductCount\<close>; the one of the batch result is
  \<open>BatchProductCount\<close> here.
\<close>

record SortResult =
  Products :: ProductCollection
  Strategy :: SortStrategy
  ExecutionTime :: int
  ProductCount :: nat
  SortedAt :: Time

definition NewSortResult ::
  "clock \<Rightarrow> world \<Rightarrow> ProductCollection \<Rightarrow> SortStrategy \<Rightarrow> int \<Rightarrow> SortResult \<times> world" where
  "NewSortResult clk w products strategy executionTime =
     (case Now clk w of (now, w') \<Rightarrow>
        (\<lparr>Products = products, Strategy = strategy, ExecutionTime = executionTime,
          ProductCount = len w products, SortedAt = now\<rparr>, w'))"

text \<open>
  \<open>Results\<close> is a Go map from strategies to results: an association list with distinct
  keys, where an assignment \<open>results[k] = v\<close> is \<open>AList.update k v\<close> and \<open>len\<close> is the
  length. \<open>NewBatchSortResult\<close> takes the product count from the first entry that the
  iteration over the map yields; Go leaves that order open, the model takes the head.
\<close>

record BatchSortResult =
  Results :: "(SortStrategy \<times> SortResult) list"
  TotalTime :: int
  StrategyCount :: nat
  BatchProductCount :: nat
  ExecutedAt :: Time

definition NewBatchSortResult ::
  "clock \<Rightarrow> world \<Rightarrow> (SortStrategy \<times> SortResult) list \<Rightarrow> int \<Rightarrow> BatchSortResult \<times> world" where
  "NewBatchSortResult clk w results totalTime =
     (let productCount = (case results of [] \<Rightarrow> 0 | (_, result) # _ \<Rightarrow> ProductCount result)
      in case Now clk w of (now, w') \<Rightarrow>
        (\<lparr>Results = results, TotalTime = totalTime, StrategyCount = length results,
          BatchProductCount = productCount, ExecutedAt = now\<rparr>, w'))"

section \<open>The service: \<open>service.go\<close>\<close>

definition validateSortRequest ::
  "clock \<Rightarrow> world \<Rightarrow> ProductCollection \<Rightarrow> SortStrategy \<Rightarrow> world \<times> error option" where
  "validateSortRequest clk w products strategy =
     (if products = nil then (w, Some ProductsNil)
      else if \<not> IsValid strategy then (w, Some (InvalidSortStrategy strategy))
      else
        case ProductCollection_Validate clk w products of
          (w', Some err) \<Rightarrow> (w', Some (Wrapped ''product validation failed'' err))
        | (w', None) \<Rightarrow> (w', None))"

definition validateBatchSortRequest ::
  "clock \<Rightarrow> world \<Rightarrow> ProductCollection \<Rightarrow> SortStrategy list \<Rightarrow> world \<times> error option" where
  "validateBatchSortRequest clk w products strategies =
     (if products = nil then (w, Some ProductsNil)
      else if length strategies = 0 then (w, Some StrategiesEmpty)
      else
        case SortStrategySet_Validate strategies of
          Some err \<Rightarrow> (w, Some (Wrapped ''strategies validation failed'' err))
        | None \<Rightarrow>
            (case ProductCollection_Validate clk w products of
               (w', Some err) \<Rightarrow> (w', Some (Wrapped ''product validation failed'' err))
             | (w', None) \<Rightarrow> (w', None)))"

text \<open>
  \<open>SortProducts\<close>. The logger is left out. \<open>time.Since(start)\<close> is a reading of the
  clock minus \<open>start\<close>.
\<close>

definition SortProducts ::
  "clock \<Rightarrow> world \<Rightarrow> ProductCollection \<Rightarrow> SortStrategy \<Rightarrow> world \<times> (error + SortResult)" where
  "SortProducts clk w products strategy =
     (case validateSortRequest clk w products strategy of
        (w1, Some err) \<Rightarrow> (w1, Inl (Wrapped ''sort request validation failed'' err))
      | (w1, None) \<Rightarrow>
          (case Now clk w1 of (start, w2) \<Rightarrow>
             (case CreateSorter strategy of
                Inl err \<Rightarrow> (w2, Inl (Wrapped ''failed to create sorter for strategy'' err))
              | Inr sorter \<Rightarrow>
                  (case Sort sorter w2 products of
                     (w3, Inl err) \<Rightarrow> (w3, Inl (Wrapped ''sorting failed for strategy'' err))
                   | (w3, Inr sortedProducts) \<Rightarrow>
                       (case Now clk w3 of (finish, w4) \<Rightarrow>
                          (case NewSortResult clk w4 sortedProducts strategy (finish - start)
                           of (result, w5) \<Rightarrow> (w5, Inr result)))))))"

text \<open>The loop of \<open>BatchSort\<close> over the requested strategies, in their order.\<close>

fun batch_loop ::
  "clock \<Rightarrow> world \<Rightarrow> ProductCollection \<Rightarrow> SortStrategy list \<Rightarrow>
   (SortStrategy \<times> SortResult) list \<Rightarrow> world \<times> (error + (SortStrategy \<times> SortResult) list)" where
  "batch_loop clk w products [] results = (w, Inr results)"
| "batch_loop clk w products (strategy # rest) results =
     (case SortProducts clk w products strategy of
        (w', Inl err) \<Rightarrow> (w', Inl (Wrapped ''batch sort failed for strategy'' err))
      | (w', Inr result) \<Rightarrow>
          batch_loop clk w' products rest (AList.update strategy result results))"

definition BatchSort ::
  "clock \<Rightarrow> world \<Rightarrow> ProductCollection \<Rightarrow> SortStrategy list \<Rightarrow>
   world \<times> (error + BatchSortResult)" where
  "BatchSort clk w products strategies =
     (case validateBatchSortRequest clk w products strategies of
        (w1, Some err) \<Rightarrow> (w1, Inl (Wrapped ''batch sort request validation failed'' err))
      | (w1, None) \<Rightarrow>
          (case Now clk w1 of (start, w2) \<Rightarrow>
             (case batch_loop clk w2 products strategies [] of
                (w3, Inl err) \<Rightarrow> (w3, Inl err)
              | (w3, Inr results) \<Rightarrow>
                  (case Now clk w3 of (finish, w4) \<Rightarrow>
                     (case NewBatchSortResult clk w4 results (finish - start)
                      of (batchResult, w5) \<Rightarrow> (w5, Inr batchResult))))))"

section \<open>The test fixture: \<open>GetTestProducts\<close>\<close>

text \<open>
  The three products of \<open>test/unit/comprehensive_test.go\<close>. \<open>parseDate\<close> takes the
  number of days from Go's zero time (1 January of year 1) to the date: 737062 for
  2019-01-04, 734505 for 2012-01-04, 735380 for 2014-05-28. A price literal is the
  nearest \<open>float64\<close>. The clock of the fixture starts on 2026-10-31 and advances by a
  nanosecond at every reading; the caller's slice is the array at address 0.
\<close>

definition parseDate :: "int \<Rightarrow> Time" where
  "parseDate days = days * 86400000000000"

definition product_A :: Product where
  "product_A =
     \<lparr>ID = 1, Name = ''Alabaster Table'', Price = float64_round (1299 / 100),
      CreatedAt = parseDate 737062, SalesCount = 32, ViewsCount = 730\<rparr>"

definition product_B :: Product where
  "product_B =
     \<lparr>ID = 2, Name = ''Zebra Table'', Price = float64_round (4449 / 100),
      CreatedAt = parseDate 734505, SalesCount = 301, ViewsCount = 3279\<rparr>"

definition product_C :: Product where
  "product_C =
     \<lparr>ID = 3, Name = ''Coffee Table'', Price = float64_round 10,
      CreatedAt = parseDate 735380, SalesCount = 1048, ViewsCount = 20123\<rparr>"

definition GetTestProducts :: "Product list" where
  "GetTestProducts = [product_A, product_B, product_C]"

definition test_clock :: clock where
  "test_clock n = parseDate 739919 + int n"

definition test_world :: world where
  "test_world = \<lparr>heap = (\<lambda>_. [])(0 := GetTestProducts), next_free = 1, ticks = 0\<rparr>"

text \<open>
  The same three products in another order, and two products of equal price, as in
  \<open>TestSortStability\<close>, in both orders.
\<close>

definition test_world_permuted :: world where
  "test_world_permuted =
     \<lparr>heap = (\<lambda>_. [])(0 := [product_C, product_A, product_B]), next_free = 1, ticks = 0\<rparr>"

definition tie_a :: Product where
  "tie_a =
     \<lparr>ID = 1, Name = ''Product A'', Price = float64_round 100,
      CreatedAt = parseDate 737062, SalesCount = 10, ViewsCount = 100\<rparr>"

definition tie_b :: Product where
  "tie_b =
     \<lparr>ID = 2, Name = ''Product B'', Price = float64_round 100,
      CreatedAt = parseDate 737062, SalesCount = 10, ViewsCount = 100\<rparr>"

definition tie_world_ab :: world where
  "tie_world_ab = \<lparr>heap = (\<lambda>_. [])(0 := [tie_a, tie_b]), next_free = 1, ticks = 0\<rparr>"

definition tie_world_ba :: world where
  "tie_world_ba = \<lparr>heap = (\<lambda>_. [])(0 := [tie_b, tie_a]), next_free = 1, ticks = 0\<rparr>"

section \<open>The invariants of an item, as the specification words them\<close>

text \<open>
  Section 3 of the specification: the identifier is a positive integer, the name is not
  empty and has at most 255 characters (bytes, as \<open>len\<close> counts them), the price is a
  non-negative number of at most 999999.99, the creation time is set and not in the
  future, the two counts are non-negative, and the sales count is at most the views count.
  This predicate is written from the specification, not from \<open>Product.Validate\<close>. It
  holds the invariants of one item. That identifiers are unique within a collection
  is a property of the collection, which section 3 also asks for and which no code
  checks; it is not part of this predicate, and appears as a hypothesis where a
  statement needs it.
\<close>

definition spec_item_invariant :: "Time \<Rightarrow> Product \<Rightarrow> bool" where
  "spec_item_invariant now p =
     (0 < sint (ID p) \<and>
      Name p \<noteq> [] \<and> length (Name p) \<le> 255 \<and>
      f64_ge (Price p) (Fin 0) \<and> f64_le (Price p) max_price \<and>
      CreatedAt p \<noteq> 0 \<and> CreatedAt p \<le> now \<and>
      0 \<le> sint (SalesCount p) \<and> 0 \<le> sint (ViewsCount p) \<and>
      sint (SalesCount p) \<le> sint (ViewsCount p))"

text \<open>A product whose price is NaN, and a store that holds it in the caller's slice.\<close>

definition nan_product :: Product where
  "nan_product =
     \<lparr>ID = 1, Name = ''Lamp'', Price = NaN, CreatedAt = parseDate 737062,
      SalesCount = 1, ViewsCount = 2\<rparr>"

definition nan_world :: world where
  "nan_world = \<lparr>heap = (\<lambda>_. [])(0 := [nan_product]), next_free = 1, ticks = 0\<rparr>"

text \<open>A product with a negative price, and a store that holds it behind a valid one.\<close>

definition negative_price_product :: Product where
  "negative_price_product =
     \<lparr>ID = 4, Name = ''Shelf'', Price = Fin (- 1), CreatedAt = parseDate 737062,
      SalesCount = 1, ViewsCount = 2\<rparr>"

definition invalid_item_world :: world where
  "invalid_item_world =
     \<lparr>heap = (\<lambda>_. [])(0 := [product_A, negative_price_product]), next_free = 1, ticks = 0\<rparr>"

section \<open>What an entry of a batch result holds\<close>

text \<open>
  Used in the proofs about \<open>BatchSort\<close>: the entry for the strategy \<open>s\<close> is a result
  of that strategy whose slice, allocated in the store, holds the input \<open>xs\<close> sorted by
  the comparator of the strategy.
\<close>

definition entry_sorted :: "world \<Rightarrow> Product list \<Rightarrow> SortStrategy \<times> SortResult \<Rightarrow> bool" where
  "entry_sorted w xs e =
     (case e of (s, r) \<Rightarrow>
        Strategy r = s \<and> ProductCount r = length xs \<and>
        (case CreateSorter s of
           Inl _ \<Rightarrow> False
         | Inr sorter \<Rightarrow>
             (case Products r of
                nil \<Rightarrow> False
              | Slice b \<Rightarrow>
                  b < next_free w \<and>
                  heap w b = insertionSort_func (comparator sorter) xs)))"

section \<open>Theorems\<close>

subsection \<open>Rounding to \<open>float64\<close>\<close>

text \<open>
  \<open>ilog2\<close> finds the binary exponent; a rounding is certified by its exponent and its
  mantissa. A 64-bit integer converts to a finite float, which is zero only for 0.
\<close>

lemma pow2_powi: "pow2 e = 2 powi e"
proof (cases "0 \<le> e")
  case True
  then show ?thesis by (simp add: pow2_def power_int_def)
next
  case False
  have "inverse (2::rat) ^ nat (- e) = 1 / 2 ^ nat (- e)"
    by (simp only: inverse_eq_divide power_one_over)
  with False show ?thesis by (simp only: pow2_def power_int_def if_False)
qed

lemma pow2_pos: "0 < pow2 e"
  by (simp add: pow2_powi)

lemma pow2_add: "pow2 (a + b) = pow2 a * pow2 b"
  by (simp add: pow2_powi power_int_add)

lemma pow2_diff: "pow2 (a - b) = pow2 a / pow2 b"
  by (simp add: pow2_powi power_int_diff)

lemma pow2_mono: "a \<le> b \<Longrightarrow> pow2 a \<le> pow2 b"
  by (simp add: pow2_powi power_int_increasing)

lemma pow2_strict_mono: "a < b \<Longrightarrow> pow2 a < pow2 b"
  by (simp add: pow2_powi power_int_strict_increasing)

lemma pow2_nat: "pow2 (int n) = 2 ^ n"
  by (simp add: pow2_def)

lemma ilog2_bounds:
  assumes "0 < q"
  shows "pow2 (ilog2 q) \<le> q \<and> q < pow2 (ilog2 q + 1)"
proof -
  obtain n d where nd: "quotient_of q = (n, d)" by (cases "quotient_of q")
  have d: "0 < d" using nd by (rule quotient_of_denom_pos)
  have q: "q = of_int n / of_int d" using nd by (rule quotient_of_div)
  have n: "0 < n" using assms d q by (simp add: zero_less_divide_iff)
  define k where "k = bitlen n - bitlen d"
  have bn: "2 ^ nat (bitlen n - 1) \<le> n" "n < 2 ^ nat (bitlen n)"
    using bitlen_bounds[OF n] by auto
  have bd: "2 ^ nat (bitlen d - 1) \<le> d" "d < 2 ^ nat (bitlen d)"
    using bitlen_bounds[OF d] by auto
  have n1: "1 \<le> bitlen n" using n by (simp add: bitlen_alt_def)
  have d1: "1 \<le> bitlen d" using d by (simp add: bitlen_alt_def)
  have rn: "pow2 (bitlen n - 1) \<le> of_int n" "of_int n < pow2 (bitlen n)"
  proof -
    have "(of_int (2 ^ nat (bitlen n - 1)) :: rat) \<le> of_int n"
      using bn(1) of_int_le_iff by blast
    then show "pow2 (bitlen n - 1) \<le> of_int n" using n1 by (simp add: pow2_def)
    have "(of_int n :: rat) < of_int (2 ^ nat (bitlen n))"
      using bn(2) of_int_less_iff by blast
    then show "of_int n < pow2 (bitlen n)" using n1 by (simp add: pow2_def)
  qed
  have rd: "pow2 (bitlen d - 1) \<le> of_int d" "of_int d < pow2 (bitlen d)"
  proof -
    have "(of_int (2 ^ nat (bitlen d - 1)) :: rat) \<le> of_int d"
      using bd(1) of_int_le_iff by blast
    then show "pow2 (bitlen d - 1) \<le> of_int d" using d1 by (simp add: pow2_def)
    have "(of_int d :: rat) < of_int (2 ^ nat (bitlen d))"
      using bd(2) of_int_less_iff by blast
    then show "of_int d < pow2 (bitlen d)" using d1 by (simp add: pow2_def)
  qed
  have dpos: "(0::rat) < of_int d" using d by simp
  have lower: "pow2 (k - 1) < q"
  proof -
    have "pow2 (k - 1) * of_int d < pow2 (k - 1) * pow2 (bitlen d)"
      using rd(2) pow2_pos by simp
    also have "\<dots> = pow2 (bitlen n - 1)"
      by (simp add: k_def flip: pow2_add)
    also have "\<dots> \<le> of_int n" by (rule rn(1))
    finally show ?thesis using dpos by (simp add: q pos_less_divide_eq)
  qed
  have upper: "q < pow2 (k + 1)"
  proof -
    have "of_int n < pow2 (bitlen n)" by (rule rn(2))
    also have "\<dots> = pow2 (k + 1) * pow2 (bitlen d - 1)"
      by (simp add: k_def flip: pow2_add)
    also have "\<dots> \<le> pow2 (k + 1) * of_int d"
      using rd(1) pow2_pos by simp
    finally show ?thesis using dpos by (simp add: q pos_divide_less_eq)
  qed
  have il: "ilog2 q = (if pow2 k \<le> q then k else k - 1)"
    by (simp add: ilog2_def nd k_def)
  show ?thesis
  proof (cases "pow2 k \<le> q")
    case True
    then show ?thesis using upper by (simp add: il)
  next
    case False
    then show ?thesis using lower by (simp add: il)
  qed
qed

lemma ilog2_unique:
  assumes "0 < q" "pow2 e \<le> q" "q < pow2 (e + 1)"
  shows "ilog2 q = e"
proof (rule ccontr)
  assume ne: "ilog2 q \<noteq> e"
  have b: "pow2 (ilog2 q) \<le> q" "q < pow2 (ilog2 q + 1)"
    using ilog2_bounds[OF assms(1)] by auto
  show False
  proof (cases "ilog2 q < e")
    case True
    then have "pow2 (ilog2 q + 1) \<le> pow2 e" by (intro pow2_mono) simp
    then show False using b(2) assms(2) by simp
  next
    case False
    with ne have "e + 1 \<le> ilog2 q" by simp
    then have "pow2 (e + 1) \<le> pow2 (ilog2 q)" by (rule pow2_mono)
    then show False using b(1) assms(3) by simp
  qed
qed

lemma round_half_even_cert:
  assumes "\<bar>x - of_int m\<bar> < 1 / 2"
  shows "round_half_even x = m"
proof (cases "of_int m \<le> x")
  case True
  with assms have fl: "\<lfloor>x\<rfloor> = m" by (intro floor_unique) auto
  show ?thesis using assms True by (simp add: round_half_even_def Let_def fl)
next
  case False
  with assms have fl: "\<lfloor>x\<rfloor> = m - 1" by (intro floor_unique) auto
  show ?thesis using assms False by (simp add: round_half_even_def Let_def fl)
qed

lemma round_half_even_of_int: "round_half_even (of_int m) = m"
  by (rule round_half_even_cert) simp

lemma round_half_even_upper: "of_int (round_half_even x) \<le> x + 1 / 2"
proof -
  define f where "f = \<lfloor>x\<rfloor>"
  have "of_int f \<le> x" "x < of_int f + 1" by (auto simp: f_def) linarith
  then show ?thesis
    unfolding round_half_even_def Let_def f_def[symmetric] by auto
qed

lemma round_half_even_lower: "x - 1 / 2 \<le> of_int (round_half_even x)"
proof -
  define f where "f = \<lfloor>x\<rfloor>"
  have "of_int f \<le> x" "x < of_int f + 1" by (auto simp: f_def) linarith
  then show ?thesis
    unfolding round_half_even_def Let_def f_def[symmetric] by auto
qed

lemma float64_round_not_NaN: "float64_round q \<noteq> NaN"
  by (simp add: float64_round_def Let_def)

lemma float64_round_cert:
  assumes "0 < q" "pow2 e \<le> q" "q < pow2 (e + 1)" "- 1022 \<le> e" "e < 1023"
    and "\<bar>q / pow2 (e - 52) - of_int m\<bar> < 1 / 2"
  shows "float64_round q = Fin (of_int m * pow2 (e - 52))"
proof -
  have il: "ilog2 q = e" using assms(1-3) by (simp add: ilog2_unique)
  have absq: "\<bar>q\<bar> = q" "sgn q = 1" "q \<noteq> 0" using assms(1) by auto
  have mx: "max e (- 1022) = e" using assms(4) by simp
  have m: "round_half_even (q / pow2 (e - 52)) = m"
    using assms(6) by (rule round_half_even_cert)
  have "q / pow2 (e - 52) < pow2 (e + 1) / pow2 (e - 52)"
    using assms(3) pow2_pos by (simp add: divide_strict_right_mono)
  also have "\<dots> = pow2 53" by (simp flip: pow2_diff)
  finally have x53: "q / pow2 (e - 52) < pow2 53" .
  have "of_int m < q / pow2 (e - 52) + 1 / 2" using assms(6) by linarith
  with x53 have "(of_int m :: rat) < pow2 53 + 1 / 2" by linarith
  also have "\<dots> \<le> pow2 54"
    by (simp add: pow2_def)
  finally have "of_int m * pow2 (e - 52) < pow2 54 * pow2 (e - 52)"
    using pow2_pos by simp
  also have "\<dots> = pow2 (e + 2)" by (simp add: add.commute flip: pow2_add)
  also have "\<dots> \<le> pow2 1024" using assms(5) by (intro pow2_mono) simp
  finally have small: "\<not> pow2 1024 \<le> of_int m * pow2 (e - 52)" by simp
  show ?thesis
    using small
    by (simp only: float64_round_def Let_def absq il mx m if_False mult_1)
qed

lemma float64_round_finite:
  assumes "1 \<le> \<bar>q\<bar>" "\<bar>q\<bar> < pow2 1023"
  shows "\<exists>r. float64_round q = Fin r \<and> r \<noteq> 0"
proof -
  define a where "a = \<bar>q\<bar>"
  define e where "e = ilog2 a"
  have a: "0 < a" "1 \<le> a" "a < pow2 1023" using assms by (auto simp: a_def)
  have b: "pow2 e \<le> a" "a < pow2 (e + 1)"
    using ilog2_bounds[OF a(1)] by (auto simp: e_def)
  have e0: "0 \<le> e"
  proof (rule ccontr)
    assume "\<not> 0 \<le> e"
    then have "pow2 (e + 1) \<le> pow2 0" by (intro pow2_mono) simp
    then show False using b(2) a(2) by (simp add: pow2_def)
  qed
  have e1: "e < 1023"
  proof (rule ccontr)
    assume "\<not> e < 1023"
    then have "pow2 1023 \<le> pow2 e" by (intro pow2_mono) simp
    then show False using b(1) a(3) by simp
  qed
  define ulp where "ulp = pow2 (e - 52)"
  define m where "m = round_half_even (a / ulp)"
  have ulp: "0 < ulp" by (simp add: ulp_def pow2_pos)
  have "pow2 e / ulp \<le> a / ulp" using b(1) ulp by (simp add: divide_right_mono)
  then have lo: "pow2 52 \<le> a / ulp" by (simp add: ulp_def flip: pow2_diff)
  have "a / ulp < pow2 (e + 1) / ulp" using b(2) ulp by (simp add: divide_strict_right_mono)
  then have hi: "a / ulp < pow2 53" by (simp add: ulp_def flip: pow2_diff)
  have p52: "(1::rat) \<le> pow2 52" by (simp add: pow2_def)
  have "a / ulp - 1 / 2 \<le> of_int m" unfolding m_def by (rule round_half_even_lower)
  with lo p52 have mpos: "(0::rat) < of_int m" by linarith
  have "of_int m \<le> a / ulp + 1 / 2" unfolding m_def by (rule round_half_even_upper)
  with hi have "(of_int m :: rat) < pow2 53 + 1 / 2" by linarith
  also have "\<dots> \<le> pow2 54" by (simp add: pow2_def)
  finally have "of_int m * ulp < pow2 54 * ulp" using ulp by simp
  also have "\<dots> = pow2 (e + 2)" by (simp add: ulp_def add.commute flip: pow2_add)
  also have "\<dots> \<le> pow2 1024" using e1 by (intro pow2_mono) simp
  finally have small: "\<not> pow2 1024 \<le> of_int m * ulp" by simp
  have rpos: "0 < of_int m * ulp" using mpos ulp by simp
  have q0: "q \<noteq> 0" using assms(1) by auto
  have mx: "max e (- 1022) = e" using e0 by simp
  have "float64_round q = Fin (sgn q * (of_int m * ulp))"
    using q0 small
    by (simp add: float64_round_def Let_def mx flip: a_def e_def ulp_def m_def)
  moreover have "sgn q * (of_int m * ulp) \<noteq> 0" using q0 mpos ulp by (simp add: sgn_if)
  ultimately show ?thesis by blast
qed

lemma f64_of_int_0: "f64_of_int 0 = Fin 0"
  by (simp add: f64_of_int_def float64_round_def)

lemma f64_of_int_finite:
  assumes "n \<noteq> 0" "\<bar>n\<bar> \<le> 2 ^ 63"
  shows "\<exists>r. f64_of_int n = Fin r \<and> r \<noteq> 0"
proof -
  have "(1::rat) \<le> \<bar>of_int n\<bar>" using assms(1) by (simp flip: of_int_abs)
  moreover have "\<bar>of_int n :: rat\<bar> \<le> 2 ^ 63"
    using assms(2) by (metis of_int_abs of_int_le_iff of_int_numeral of_int_power)
  moreover have "(2::rat) ^ 63 < pow2 1023"
    using pow2_strict_mono[of 63 1023] by (simp add: pow2_def)
  ultimately show ?thesis
    unfolding f64_of_int_def by (intro float64_round_finite) auto
qed

lemma f64_of_sint:
  fixes w :: "64 word"
  shows "\<exists>r. f64_of_int (sint w) = Fin r \<and> (r = 0 \<longleftrightarrow> w = 0)"
proof (cases "w = 0")
  case True
  then show ?thesis by (simp add: f64_of_int_0)
next
  case False
  then have "sint w \<noteq> 0" by (simp add: signed_eq_0_iff)
  moreover have "\<bar>sint w\<bar> \<le> 2 ^ 63"
    using sint_ge[of w] sint_lt[of w] by simp
  ultimately show ?thesis using False f64_of_int_finite by blast
qed

lemma f64_of_int_exact:
  assumes "0 \<le> n" "n < 2 ^ 53"
  shows "f64_of_int n = Fin (of_int n)"
proof (cases "n = 0")
  case True
  then show ?thesis by (simp add: f64_of_int_0)
next
  case False
  define q :: rat where "q = of_int n"
  define e where "e = ilog2 q"
  have q: "0 < q" "1 \<le> q" using assms(1) False by (auto simp: q_def)
  have b: "pow2 e \<le> q" "q < pow2 (e + 1)"
    using ilog2_bounds[OF q(1)] by (auto simp: e_def)
  have e0: "0 \<le> e"
  proof (rule ccontr)
    assume "\<not> 0 \<le> e"
    then have "pow2 (e + 1) \<le> pow2 0" by (intro pow2_mono) simp
    then show False using b(2) q(2) by (simp add: pow2_def)
  qed
  have "q < 2 ^ 53"
    using assms(2) unfolding q_def by (metis of_int_less_iff of_int_numeral of_int_power)
  then have q53: "q < pow2 53" by (simp add: pow2_def)
  have e52: "e \<le> 52"
  proof (rule ccontr)
    assume "\<not> e \<le> 52"
    then have "pow2 53 \<le> pow2 e" by (intro pow2_mono) simp
    then show False using b(1) q53 by simp
  qed
  define m where "m = n * 2 ^ nat (52 - e)"
  have p: "pow2 (52 - e) = of_int (2 ^ nat (52 - e))"
    using e52 by (simp add: pow2_def)
  have "q / pow2 (e - 52) = q * pow2 (52 - e)"
    using pow2_diff[of 0 "e - 52"] by (simp add: pow2_def field_simps)
  also have "\<dots> = of_int m" by (simp add: m_def q_def p)
  finally have x: "q / pow2 (e - 52) = of_int m" .
  have "float64_round q = Fin (of_int m * pow2 (e - 52))"
    using q(1) b e0 e52 by (intro float64_round_cert) (simp_all add: x)
  also have "of_int m * pow2 (e - 52) = q"
    using x pow2_pos[of "e - 52"] by (simp add: field_simps)
  finally show ?thesis by (simp add: f64_of_int_def q_def)
qed

subsection \<open>The insertion sort of the library\<close>

text \<open>
  One run of the inner loop inserts the element at index \<open>j\<close> into the prefix before
  it; the outer loop therefore folds \<open>insert_rev\<close> over the slice.
\<close>

lemma length_insert_rev: "length (insert_rev lessf x ys) = Suc (length ys)"
  by (induction ys) auto

lemma mset_insert_rev: "mset (insert_rev lessf x ys) = add_mset x (mset ys)"
  by (induction ys) auto

lemma inner_insert_rev:
  "insertionSort_inner lessf (rev rp @ x # post) (length rp) = rev (insert_rev lessf x rp) @ post"
proof (induction rp arbitrary: post)
  case Nil
  then show ?case by simp
next
  case (Cons y rp)
  have nth1: "(rev rp @ y # x # post) ! Suc (length rp) = x"
    by (metis length_rev nth_append_length nth_append_length_plus Suc_eq_plus1 append.simps(2) append_Nil append_assoc length_append_singleton)
  have nth0: "(rev rp @ y # x # post) ! length rp = y"
    by (metis length_rev nth_append_length)
  have upd: "(rev rp @ y # x # post)[Suc (length rp) := y, length rp := x] = rev rp @ x # y # post"
    by (simp add: list_update_append)
  show ?case
    using Cons.IH[of "y # post"] nth1 nth0 upd by simp
qed

lemma foldl_inner:
  "foldl (insertionSort_inner lessf) (rev rp @ ys) [length rp ..< length rp + length ys]
     = rev (fold (insert_rev lessf) ys rp)"
proof (induction ys arbitrary: rp)
  case Nil
  then show ?case by simp
next
  case (Cons y ys)
  have eq: "[length rp ..< Suc (length rp + length ys)]
          = length rp # [Suc (length rp) ..< Suc (length rp + length ys)]"
    by (subst upt_conv_Cons) simp_all
  have "foldl (insertionSort_inner lessf) (rev rp @ y # ys)
           [length rp ..< Suc (length rp + length ys)]
        = foldl (insertionSort_inner lessf) (rev (insert_rev lessf y rp) @ ys)
           [Suc (length rp) ..< Suc (length rp + length ys)]"
    by (subst eq) (simp add: inner_insert_rev)
  also have "\<dots> = rev (fold (insert_rev lessf) ys (insert_rev lessf y rp))"
    using Cons.IH[of "insert_rev lessf y rp"] by (simp add: length_insert_rev)
  finally show ?case by simp
qed

lemma insertionSort_func_fold:
  "insertionSort_func lessf xs = rev (fold (insert_rev lessf) xs [])"
proof (cases xs)
  case Nil
  then show ?thesis by (simp add: insertionSort_func_def)
next
  case (Cons x ys)
  then show ?thesis
    using foldl_inner[of lessf "[x]" ys]
    by (simp add: insertionSort_func_def)
qed

lemma mset_fold_insert_rev:
  "mset (fold (insert_rev lessf) xs rp) = mset xs + mset rp"
  by (induction xs arbitrary: rp) (auto simp: mset_insert_rev)

lemma mset_insertionSort_func: "mset (insertionSort_func lessf xs) = mset xs"
  by (simp add: insertionSort_func_fold mset_fold_insert_rev)

lemma length_insertionSort_func: "length (insertionSort_func lessf xs) = length xs"
  by (metis mset_insertionSort_func size_mset)

lemma successively_insert_rev:
  assumes "asymp lessf" "successively (\<lambda>a b. \<not> lessf a b) ys"
  shows "successively (\<lambda>a b. \<not> lessf a b) (insert_rev lessf x ys)"
  using assms(2)
proof (induction ys)
  case Nil
  then show ?case by simp
next
  case (Cons y ys)
  show ?case
  proof (cases "lessf x y")
    case True
    then have "\<not> lessf y x" using assms(1) by (meson asympD)
    then show ?thesis using Cons True
      by (cases ys) (auto simp: successively_Cons)
  next
    case False
    then show ?thesis using Cons by (simp add: successively_Cons)
  qed
qed

lemma successively_fold_insert_rev:
  assumes "asymp lessf" "successively (\<lambda>a b. \<not> lessf a b) rp"
  shows "successively (\<lambda>a b. \<not> lessf a b) (fold (insert_rev lessf) xs rp)"
  using assms(2)
  by (induction xs arbitrary: rp) (auto simp: successively_insert_rev[OF assms(1)])

lemma ordered_insertionSort_func:
  assumes "asymp lessf"
  shows "successively (\<lambda>a b. \<not> lessf b a) (insertionSort_func lessf xs)"
  using successively_fold_insert_rev[OF assms, of "[]" xs]
  by (simp add: insertionSort_func_fold)

lemma fold_insert_rev_ordered:
  "successively (\<lambda>a b. \<not> lessf b a) (rev rp @ xs) \<Longrightarrow>
   fold (insert_rev lessf) xs rp = rev xs @ rp"
proof (induction xs arbitrary: rp)
  case Nil
  then show ?case by simp
next
  case (Cons x xs)
  have ins: "insert_rev lessf x rp = x # rp"
  proof (cases rp)
    case Nil
    then show ?thesis by simp
  next
    case (Cons y rp')
    with Cons.prems have "\<not> lessf x y"
      by (simp add: successively_append_iff successively_Cons)
    then show ?thesis using Cons by simp
  qed
  show ?case using Cons.IH[of "x # rp"] Cons.prems by (simp add: ins)
qed

lemma insertionSort_func_ordered:
  "successively (\<lambda>a b. \<not> lessf b a) xs \<Longrightarrow> insertionSort_func lessf xs = xs"
  using fold_insert_rev_ordered[of lessf "[]" xs] by (simp add: insertionSort_func_fold)

lemma insertionSort_func_idem:
  "asymp lessf \<Longrightarrow>
   insertionSort_func lessf (insertionSort_func lessf xs) = insertionSort_func lessf xs"
  by (simp add: insertionSort_func_ordered ordered_insertionSort_func)


subsection \<open>The comparators are asymmetric\<close>

lemma f64_lt_asym: "f64_lt a b \<Longrightarrow> \<not> f64_lt b a"
  by (cases a; cases b) auto

lemma f64_lt_total: "a \<noteq> NaN \<Longrightarrow> b \<noteq> NaN \<Longrightarrow> f64_lt a b \<or> a = b \<or> f64_lt b a"
  by (cases a; cases b) auto

lemma f64_lt_NaN_right: "\<not> f64_lt a NaN"
  by (cases a) auto

lemma f64_lt_irrefl: "\<not> f64_lt a a"
  by (cases a) auto

lemma f64_lt_trans: "f64_lt a b \<Longrightarrow> f64_lt b c \<Longrightarrow> f64_lt a c"
  by (cases a; cases b; cases c) auto

lemma max_price_not_NaN: "max_price \<noteq> NaN"
  by (simp add: max_price_def float64_round_not_NaN)

lemma f64_ne_sym: "f64_ne a b = f64_ne b a"
  by (auto simp: f64_ne_def)

lemma asymp_PriceSorter_less: "asymp (PriceSorter_less ascending)"
  by (rule asympI) (auto simp: PriceSorter_less_def f64_gt_def dest: f64_lt_asym)

lemma asymp_CreatedAtSorter_less: "asymp (CreatedAtSorter_less ascending)"
  by (rule asympI) (auto simp: CreatedAtSorter_less_def Let_def split: if_splits)

lemma asymp_NameSorter_less: "asymp NameSorter_less"
  by (rule asympI) (auto simp: NameSorter_less_def Let_def split: if_splits)

lemma asymp_SalesConversionRatioSorter_less: "asymp SalesConversionRatioSorter_less"
  by (rule asympI)
     (auto simp: SalesConversionRatioSorter_less_def Let_def f64_gt_def f64_ne_sym
           dest: f64_lt_asym split: if_splits)

lemma asymp_PopularitySorter_less: "asymp PopularitySorter_less"
  by (rule asympI) (auto simp: PopularitySorter_less_def split: if_splits)

lemma asymp_RevenueSorter_less: "asymp RevenueSorter_less"
  by (rule asympI)
     (auto simp: RevenueSorter_less_def Let_def f64_gt_def f64_ne_sym
           dest: f64_lt_asym split: if_splits)

lemma asymp_comparator: "asymp (comparator sorter)"
  by (cases sorter)
     (simp_all add: asymp_PriceSorter_less asymp_CreatedAtSorter_less asymp_NameSorter_less
        asymp_SalesConversionRatioSorter_less asymp_PopularitySorter_less
        asymp_RevenueSorter_less)

subsection \<open>What \<open>Sort\<close> and \<open>SortProducts\<close> compute\<close>

lemma insertionSort_func_Nil: "insertionSort_func lessf [] = []"
  by (simp add: insertionSort_func_def)

lemma Sort_eq:
  "Sort sorter w products =
     (w\<lparr>heap := (heap w)(next_free w := insertionSort_func (comparator sorter) (elems w products)),
        next_free := Suc (next_free w)\<rparr>,
      Inr (Slice (next_free w)))"
proof (cases products)
  case nil
  then show ?thesis
    by (cases sorter)
       (simp_all add: PriceSorter_Sort_def CreatedAtSorter_Sort_def NameSorter_Sort_def
          SalesConversionRatioSorter_Sort_def PopularitySorter_Sort_def RevenueSorter_Sort_def
          len_def elems_def alloc_def insertionSort_func_Nil)
next
  case (Slice a)
  then show ?thesis
    by (cases sorter)
       (simp_all add: PriceSorter_Sort_def CreatedAtSorter_Sort_def NameSorter_Sort_def
          SalesConversionRatioSorter_Sort_def PopularitySorter_Sort_def RevenueSorter_Sort_def
          len_def elems_def alloc_def Copy_def sort_Slice_def insertionSort_func_Nil)
qed

lemma IsValid_CreateSorter: "IsValid strategy \<Longrightarrow> \<exists>sorter. CreateSorter strategy = Inr sorter"
  by (auto simp: IsValid_def AllSortStrategies_def CreateSorter_def)

lemma CreateSorter_IsValid: "CreateSorter strategy = Inr sorter \<Longrightarrow> IsValid strategy"
  by (auto simp: IsValid_def AllSortStrategies_def CreateSorter_def split: if_splits)

lemma elems_ticks: "elems (w\<lparr>ticks := t\<rparr>) pc = elems w pc"
  by (cases pc) (simp_all add: elems_def)

lemma len_ticks: "len (w\<lparr>ticks := t\<rparr>) pc = len w pc"
  by (simp add: len_def elems_ticks)

lemma len_Slice: "len w (Slice a) = length (heap w a)"
  by (simp add: len_def elems_def)

lemma validateSortRequest_None:
  "snd (validateSortRequest clk w products strategy) = None \<longleftrightarrow>
     products \<noteq> nil \<and> IsValid strategy \<and>
     validate_each clk (ticks w) 0 (elems w products) = []"
  by (auto simp: validateSortRequest_def ProductCollection_Validate_def Let_def)

lemma validateSortRequest_world:
  "snd (validateSortRequest clk w products strategy) = None \<Longrightarrow>
   fst (validateSortRequest clk w products strategy) = w\<lparr>ticks := ticks w + len w products\<rparr>"
  by (auto simp: validateSortRequest_def ProductCollection_Validate_def Let_def split: if_splits)

lemma validateSortRequest_frame:
  "heap (fst (validateSortRequest clk w products strategy)) = heap w \<and>
   next_free (fst (validateSortRequest clk w products strategy)) = next_free w"
  by (auto simp: validateSortRequest_def ProductCollection_Validate_def Let_def)

lemma SortProducts_invalid:
  "snd (validateSortRequest clk w products strategy) = Some err \<Longrightarrow>
   SortProducts clk w products strategy =
     (fst (validateSortRequest clk w products strategy),
      Inl (Wrapped ''sort request validation failed'' err))"
  by (cases "validateSortRequest clk w products strategy") (simp add: SortProducts_def)

lemma SortProducts_valid:
  assumes "snd (validateSortRequest clk w products strategy) = None"
  shows "\<exists>sorter. CreateSorter strategy = Inr sorter \<and>
    SortProducts clk w products strategy =
      (w\<lparr>heap := (heap w)(next_free w :=
              insertionSort_func (comparator sorter) (elems w products)),
         next_free := Suc (next_free w),
         ticks := ticks w + len w products + 3\<rparr>,
       Inr \<lparr>Products = Slice (next_free w), Strategy = strategy,
            ExecutionTime = clk (ticks w + len w products + 1) - clk (ticks w + len w products),
            ProductCount = len w products,
            SortedAt = clk (ticks w + len w products + 2)\<rparr>)"
proof -
  from assms have v: "IsValid strategy"
    by (simp add: validateSortRequest_None)
  then obtain sorter where c: "CreateSorter strategy = Inr sorter"
    using IsValid_CreateSorter by blast
  have w1: "validateSortRequest clk w products strategy
              = (w\<lparr>ticks := ticks w + len w products\<rparr>, None)"
    using assms validateSortRequest_world[OF assms] by (metis prod.collapse)
  show ?thesis
    by (rule exI[of _ sorter])
       (simp add: c SortProducts_def w1 Now_def Sort_eq NewSortResult_def elems_ticks len_ticks
          len_Slice length_insertionSort_func, simp add: len_def)
qed

lemma validate_each_Nil_iff:
  "validate_each clk t i xs = [] \<longleftrightarrow>
     (\<forall>k < length xs. Product_Validate (clk (t + k)) (xs ! k) = None)"
proof (induction xs arbitrary: t i)
  case Nil
  then show ?case by simp
next
  case (Cons x xs)
  have "(\<forall>k < length (x # xs). Product_Validate (clk (t + k)) ((x # xs) ! k) = None) \<longleftrightarrow>
        Product_Validate (clk t) x = None \<and>
        (\<forall>k < length xs. Product_Validate (clk (Suc t + k)) (xs ! k) = None)"
    by (auto simp: All_less_Suc2)
  then show ?case using Cons.IH[of "Suc t" "Suc i"]
    by (auto split: option.splits)
qed

lemma Product_Validate_later:
  "Product_Validate now p = None \<Longrightarrow> now \<le> now' \<Longrightarrow> Product_Validate now' p = None"
  by (auto simp: Product_Validate_def Let_def split: if_splits)

lemma SortProducts_frame:
  assumes "SortProducts clk w products strategy = (w', r)"
  shows "next_free w \<le> next_free w' \<and> (\<forall>a < next_free w. heap w' a = heap w a) \<and>
         (\<forall>result. r = Inr result \<longrightarrow> Products result = Slice (next_free w))"
proof (cases "snd (validateSortRequest clk w products strategy)")
  case None
  then show ?thesis using SortProducts_valid[OF None] assms by auto
next
  case (Some err)
  then show ?thesis
    using SortProducts_invalid[OF Some] assms
      validateSortRequest_frame[of clk w products strategy] by auto
qed

lemma SortProducts_Inr_valid:
  assumes "SortProducts clk w products strategy = (w', Inr result)"
  shows "snd (validateSortRequest clk w products strategy) = None"
proof (cases "snd (validateSortRequest clk w products strategy)")
  case None
  then show ?thesis .
next
  case (Some err)
  then show ?thesis using SortProducts_invalid[OF Some] assms by simp
qed

lemma SortProducts_elems:
  assumes "SortProducts clk w products strategy = (w', Inr result)"
  shows "\<exists>sorter. CreateSorter strategy = Inr sorter \<and>
           elems w' (Products result) = insertionSort_func (comparator sorter) (elems w products)"
  using SortProducts_valid[OF SortProducts_Inr_valid[OF assms]] assms
  by (auto simp: elems_def)

subsection \<open>Validation against the specification's invariants\<close>

lemma Product_Validate_None_iff:
  "Product_Validate now p = None \<longleftrightarrow>
     0 < sint (ID p) \<and> Name p \<noteq> [] \<and> length (Name p) \<le> 255 \<and>
     \<not> f64_lt (Price p) (Fin 0) \<and> \<not> f64_gt (Price p) max_price \<and>
     CreatedAt p \<noteq> 0 \<and> CreatedAt p \<le> now \<and>
     0 \<le> sint (SalesCount p) \<and> 0 \<le> sint (ViewsCount p) \<and>
     sint (SalesCount p) \<le> sint (ViewsCount p)"
  by (auto simp: Product_Validate_def Let_def split: if_splits)

lemma spec_item_invariant_accepted:
  "spec_item_invariant now p \<Longrightarrow> Product_Validate now p = None"
  using f64_lt_asym f64_lt_irrefl
  by (auto simp: Product_Validate_None_iff spec_item_invariant_def f64_ge_def f64_le_def
        f64_gt_def)

lemma accepted_spec_item_invariant:
  "Price p \<noteq> NaN \<Longrightarrow> Product_Validate now p = None \<Longrightarrow> spec_item_invariant now p"
  using f64_lt_total[of "Price p" "Fin 0"] f64_lt_total[of "Price p" max_price]
    max_price_not_NaN
  by (auto simp: Product_Validate_None_iff spec_item_invariant_def f64_ge_def f64_le_def
        f64_gt_def)

lemma SortProducts_error_iff:
  "(\<exists>w' err. SortProducts clk w products strategy = (w', Inl err)) \<longleftrightarrow>
     products = nil \<or> \<not> IsValid strategy \<or>
     (\<exists>k < len w products.
        Product_Validate (clk (ticks w + k)) (elems w products ! k) \<noteq> None)"
proof (cases "snd (validateSortRequest clk w products strategy)")
  case None
  then show ?thesis
    using SortProducts_valid[OF None]
    by (auto simp: validateSortRequest_None validate_each_Nil_iff len_def)
next
  case (Some err)
  then have "snd (validateSortRequest clk w products strategy) \<noteq> None" by simp
  then show ?thesis
    using SortProducts_invalid[OF Some]
    by (auto simp: validateSortRequest_None validate_each_Nil_iff len_def)
qed

lemma SortProducts_empty:
  assumes "products \<noteq> nil" "len w products = 0" "IsValid strategy"
  shows "\<exists>w' result. SortProducts clk w products strategy = (w', Inr result) \<and>
           elems w' (Products result) = [] \<and> ProductCount result = 0"
proof -
  have e: "elems w products = []" using assms(2) by (simp add: len_def)
  have "snd (validateSortRequest clk w products strategy) = None"
    using assms e by (simp add: validateSortRequest_None)
  from SortProducts_valid[OF this] show ?thesis
    using assms(2) e[unfolded elems_def] by (auto simp: elems_def insertionSort_func_Nil)
qed

subsection \<open>What \<open>BatchSort\<close> computes\<close>

lemma validateBatchSortRequest_None:
  "snd (validateBatchSortRequest clk w products strategies) = None \<longleftrightarrow>
     products \<noteq> nil \<and> strategies \<noteq> [] \<and> (\<forall>s \<in> set strategies. IsValid s) \<and>
     validate_each clk (ticks w) 0 (elems w products) = []"
  by (auto simp: validateBatchSortRequest_def SortStrategySet_Validate_def
        ProductCollection_Validate_def Let_def filter_empty_conv)

lemma validateBatchSortRequest_world:
  "snd (validateBatchSortRequest clk w products strategies) = None \<Longrightarrow>
   fst (validateBatchSortRequest clk w products strategies)
     = w\<lparr>ticks := ticks w + len w products\<rparr>"
  by (auto simp: validateBatchSortRequest_def SortStrategySet_Validate_def
        ProductCollection_Validate_def Let_def split: if_splits option.splits)

lemma validateBatchSortRequest_frame:
  "heap (fst (validateBatchSortRequest clk w products strategies)) = heap w \<and>
   next_free (fst (validateBatchSortRequest clk w products strategies)) = next_free w"
  by (auto simp: validateBatchSortRequest_def SortStrategySet_Validate_def
        ProductCollection_Validate_def Let_def split: option.splits)

lemma set_update_cases:
  "e \<in> set (AList.update k v al) \<Longrightarrow> e = (k, v) \<or> e \<in> set al"
  by (induction al) (auto split: if_splits)

lemma update_mem: "(k, v) \<in> set (AList.update k v al)"
  by (induction al) auto

lemma entry_sorted_frame:
  assumes "entry_sorted w xs e" "next_free w \<le> next_free w'"
    "\<forall>b < next_free w. heap w' b = heap w b"
  shows "entry_sorted w' xs e"
  using assms
  by (auto simp: entry_sorted_def split: prod.splits sum.splits ProductCollection.splits)

lemma SortProducts_entry:
  assumes "SortProducts clk w (Slice a) s = (w', Inr r)"
  shows "entry_sorted w' (heap w a) (s, r)"
  using SortProducts_valid[OF SortProducts_Inr_valid[OF assms]] assms
  by (auto simp: entry_sorted_def elems_def len_def)

lemma batch_loop_results:
  assumes "batch_loop clk w (Slice a) strategies results = (w', Inr results')"
    and "a < next_free w"
    and "\<forall>e \<in> set results. entry_sorted w (heap w a) e"
    and "distinct (map fst results)"
  shows "fst ` set results' = fst ` set results \<union> set strategies \<and>
         distinct (map fst results') \<and>
         next_free w \<le> next_free w' \<and> (\<forall>b < next_free w. heap w' b = heap w b) \<and>
         (\<forall>e \<in> set results'. entry_sorted w' (heap w a) e)"
  using assms
proof (induction strategies arbitrary: w results)
  case Nil
  then show ?case by simp
next
  case (Cons s strategies)
  obtain w1 o1 where sp: "SortProducts clk w (Slice a) s = (w1, o1)"
    by (cases "SortProducts clk w (Slice a) s")
  from Cons.prems(1) sp obtain r where o1: "o1 = Inr r"
    by (cases o1) auto
  have loop: "batch_loop clk w1 (Slice a) strategies (AList.update s r results)
                = (w', Inr results')"
    using Cons.prems(1) sp o1 by simp
  have fr: "next_free w \<le> next_free w1" "\<forall>b < next_free w. heap w1 b = heap w b"
    using SortProducts_frame[OF sp] by auto
  have a1: "a < next_free w1" using Cons.prems(2) fr(1) by simp
  have h1: "heap w1 a = heap w a" using Cons.prems(2) fr(2) by simp
  have new: "entry_sorted w1 (heap w a) (s, r)"
    using SortProducts_entry[OF sp[unfolded o1]] .
  have old: "\<forall>e \<in> set results. entry_sorted w1 (heap w a) e"
    using Cons.prems(3) entry_sorted_frame[OF _ fr] by blast
  have ent: "\<forall>e \<in> set (AList.update s r results). entry_sorted w1 (heap w1 a) e"
    using new old set_update_cases[of _ s r results] by (auto simp: h1)
  have dist: "distinct (map fst (AList.update s r results))"
    using Cons.prems(4) by (rule distinct_update)
  note IH = Cons.IH[OF loop a1 ent dist]
  show ?case
    using IH fr by (auto simp: dom_update h1)
qed

lemma batch_loop_succeeds:
  assumes "mono clk" "a < next_free w"
    and "\<forall>s \<in> set strategies. IsValid s"
    and "\<forall>k < length (heap w a). Product_Validate (clk (t0 + k)) (heap w a ! k) = None"
    and "t0 \<le> ticks w"
  shows "\<exists>w' results'. batch_loop clk w (Slice a) strategies results = (w', Inr results')"
  using assms(2-5)
proof (induction strategies arbitrary: w results)
  case Nil
  then show ?case by simp
next
  case (Cons s strategies)
  have "\<forall>k < length (heap w a). Product_Validate (clk (ticks w + k)) (heap w a ! k) = None"
  proof (intro allI impI)
    fix k assume k: "k < length (heap w a)"
    have "clk (t0 + k) \<le> clk (ticks w + k)"
      using assms(1) Cons.prems(4) by (simp add: monoD)
    then show "Product_Validate (clk (ticks w + k)) (heap w a ! k) = None"
      using Cons.prems(3) k Product_Validate_later by blast
  qed
  then have v: "snd (validateSortRequest clk w (Slice a) s) = None"
    using Cons.prems(2) by (simp add: validateSortRequest_None validate_each_Nil_iff elems_def)
  from SortProducts_valid[OF v] obtain w1 r where
    sp: "SortProducts clk w (Slice a) s = (w1, Inr r)" and
    w1: "next_free w1 = Suc (next_free w)" "heap w1 a = heap w a" "ticks w \<le> ticks w1"
    using Cons.prems(1) by (auto simp: elems_def)
  have "\<exists>w' results'.
      batch_loop clk w1 (Slice a) strategies (AList.update s r results) = (w', Inr results')"
    using Cons.prems w1 by (intro Cons.IH) auto
  then show ?case using sp by simp
qed

lemma BatchSort_invalid:
  assumes "snd (validateBatchSortRequest clk w products strategies) = Some err"
  shows "\<exists>w'. BatchSort clk w products strategies
            = (w', Inl (Wrapped ''batch sort request validation failed'' err)) \<and>
          heap w' = heap w \<and> next_free w' = next_free w"
  using assms validateBatchSortRequest_frame[of clk w products strategies]
  by (cases "validateBatchSortRequest clk w products strategies")
     (auto simp: BatchSort_def)

lemma BatchSort_Inr:
  assumes "BatchSort clk w products strategies = (w', Inr br)"
  shows "snd (validateBatchSortRequest clk w products strategies) = None \<and>
    (\<exists>w3. batch_loop clk
             (w\<lparr>ticks := Suc (ticks w + len w products)\<rparr>) products strategies []
             = (w3, Inr (Results br)) \<and>
           heap w' = heap w3 \<and> next_free w' = next_free w3) \<and>
    StrategyCount br = length (Results br)"
proof (cases "snd (validateBatchSortRequest clk w products strategies)")
  case (Some err)
  then show ?thesis using BatchSort_invalid[OF Some] assms by auto
next
  case None
  have w1: "validateBatchSortRequest clk w products strategies
              = (w\<lparr>ticks := ticks w + len w products\<rparr>, None)"
    using None validateBatchSortRequest_world[OF None] by (metis prod.collapse)
  obtain w3 o3 where l: "batch_loop clk (w\<lparr>ticks := Suc (ticks w + len w products)\<rparr>)
      products strategies [] = (w3, o3)"
    by (cases "batch_loop clk (w\<lparr>ticks := Suc (ticks w + len w products)\<rparr>)
      products strategies []")
  show ?thesis
    using assms None
    by (cases o3)
       (auto simp: BatchSort_def w1 Now_def l NewBatchSortResult_def Let_def)
qed

lemma BatchSort_succeeds:
  assumes "mono clk" "allocated w products"
    and "snd (validateBatchSortRequest clk w products strategies) = None"
  shows "\<exists>w' br. BatchSort clk w products strategies = (w', Inr br)"
proof -
  from assms(3) have v: "products \<noteq> nil" "\<forall>s \<in> set strategies. IsValid s"
    "validate_each clk (ticks w) 0 (elems w products) = []"
    by (auto simp: validateBatchSortRequest_None)
  then obtain a where a: "products = Slice a" by (cases products) auto
  have al: "a < next_free w" using assms(2) a by (simp add: allocated_def)
  have w1: "validateBatchSortRequest clk w products strategies
              = (w\<lparr>ticks := ticks w + len w products\<rparr>, None)"
    using assms(3) validateBatchSortRequest_world[OF assms(3)] by (metis prod.collapse)
  define w2 where "w2 = w\<lparr>ticks := Suc (ticks w + len w products)\<rparr>"
  have "\<exists>w3 results. batch_loop clk w2 (Slice a) strategies [] = (w3, Inr results)"
    using assms(1) al v(2) v(3)
    by (intro batch_loop_succeeds[where ?t0.0 = "ticks w"])
       (auto simp: w2_def a elems_def validate_each_Nil_iff)
  then obtain w3 results where
    l: "batch_loop clk w2 products strategies [] = (w3, Inr results)"
    using a by auto
  show ?thesis
    by (simp add: BatchSort_def w1 Now_def l[unfolded w2_def] NewBatchSortResult_def Let_def)
qed

lemma BatchSort_results:
  assumes "allocated w products" "BatchSort clk w products strategies = (w', Inr br)"
  shows "fst ` set (Results br) = set strategies \<and> distinct (map fst (Results br)) \<and>
         StrategyCount br = length (Results br) \<and>
         (\<forall>e \<in> set (Results br). entry_sorted w' (elems w products) e)"
proof -
  from BatchSort_Inr[OF assms(2)] obtain w3 where
    v: "snd (validateBatchSortRequest clk w products strategies) = None" and
    l: "batch_loop clk (w\<lparr>ticks := Suc (ticks w + len w products)\<rparr>) products strategies []
          = (w3, Inr (Results br))" and
    h: "heap w' = heap w3" "next_free w' = next_free w3" and
    c: "StrategyCount br = length (Results br)"
    by blast
  from v have "products \<noteq> nil" by (simp add: validateBatchSortRequest_None)
  then obtain a where a: "products = Slice a" by (cases products) auto
  define w2 where "w2 = w\<lparr>ticks := Suc (ticks w + len w products)\<rparr>"
  have l2: "batch_loop clk w2 (Slice a) strategies [] = (w3, Inr (Results br))"
    using l by (simp add: w2_def a)
  have al: "a < next_free w2"
    using assms(1) a by (simp add: allocated_def w2_def)
  have hw: "heap w2 a = heap w a" by (simp add: w2_def)
  have r: "fst ` set (Results br) = set strategies \<and> distinct (map fst (Results br)) \<and>
      (\<forall>e \<in> set (Results br). entry_sorted w3 (heap w a) e)"
    using batch_loop_results[OF l2 al] by (simp add: hw)
  have "entry_sorted w' xs e" if "entry_sorted w3 xs e" for xs e
    using entry_sorted_frame[OF that, of w'] h by simp
  then show ?thesis using r c by (simp add: a elems_def)
qed

subsection \<open>The fixture, evaluated\<close>

lemma price_1299: "float64_round (1299 / 100) = Fin (7312719894942843 / 562949953421312)"
  using float64_round_cert[of "1299 / 100" 3 7312719894942843] by (simp add: pow2_def)

lemma price_4449: "float64_round (4449 / 100) = Fin (6261410856928543 / 140737488355328)"
  using float64_round_cert[of "4449 / 100" 5 6261410856928543] by (simp add: pow2_def)

lemma price_10: "float64_round 10 = Fin 10"
  using float64_round_cert[of 10 3 5629499534213120] by (simp add: pow2_def)

lemma max_price_value: "max_price = Fin (4294967253050327 / 4294967296)"
  using float64_round_cert[of "99999999 / 100" 19 8589934506100654]
  by (simp add: max_price_def pow2_def)

lemma ratio_A: "float64_round (16 / 365) = Fin (3158689053717389 / 72057594037927936)"
  using float64_round_cert[of "16 / 365" "- 5" 6317378107434778] by (simp add: pow2_def)

lemma ratio_B: "float64_round (301 / 3279) = Fin (6614619031843949 / 72057594037927936)"
  using float64_round_cert[of "301 / 3279" "- 4" 6614619031843949] by (simp add: pow2_def)

lemma ratio_C: "float64_round (1048 / 20123) = Fin (3752738585287903 / 72057594037927936)"
  using float64_round_cert[of "1048 / 20123" "- 5" 7505477170575806] by (simp add: pow2_def)

lemma test_product_valid:
  "p \<in> set GetTestProducts \<Longrightarrow> Product_Validate (test_clock t) p = None"
  by (auto simp: GetTestProducts_def product_A_def product_B_def product_C_def
        Product_Validate_def test_clock_def parseDate_def
        price_1299 price_4449 price_10 max_price_value f64_gt_def)

lemma sort_price_asc:
  "insertionSort_func (PriceSorter_less True) GetTestProducts =
     [product_C, product_A, product_B]"
  by (simp add: insertionSort_func_fold GetTestProducts_def PriceSorter_less_def
        product_A_def product_B_def product_C_def price_1299 price_4449 price_10)

lemma sort_ratio:
  "insertionSort_func SalesConversionRatioSorter_less GetTestProducts =
     [product_B, product_C, product_A]"
  by (simp add: insertionSort_func_fold GetTestProducts_def SalesConversionRatioSorter_less_def
        product_A_def product_B_def product_C_def
        SalesConversionRatio_def f64_of_int_exact f64_ne_def f64_gt_def
        ratio_A ratio_B ratio_C Let_def)

lemma test_products_valid:
  "set xs \<subseteq> set GetTestProducts \<Longrightarrow> validate_each test_clock t i xs = []"
  by (simp add: validate_each_Nil_iff) (meson nth_mem subsetD test_product_valid)

lemma test_request_valid:
  "IsValid strategy \<Longrightarrow>
   snd (validateSortRequest test_clock test_world (Slice 0) strategy) = None"
  by (simp add: validateSortRequest_None test_world_def elems_def test_products_valid)

lemma IsValid_SortByPriceAsc: "IsValid SortByPriceAsc"
  by (simp add: IsValid_def AllSortStrategies_def)

lemma IsValid_SortBySalesConversionRatio: "IsValid SortBySalesConversionRatio"
  by (simp add: IsValid_def AllSortStrategies_def)

lemma CreateSorter_SortByPriceAsc: "CreateSorter SortByPriceAsc = Inr (PriceSorter True)"
  by (simp add: CreateSorter_def)

lemma CreateSorter_SortBySalesConversionRatio:
  "CreateSorter SortBySalesConversionRatio = Inr SalesConversionRatioSorter"
  by (simp add: CreateSorter_def SortBySalesConversionRatio_def SortByPriceAsc_def
        SortByPriceDesc_def)

lemma mono_test_clock: "mono test_clock"
  by (simp add: mono_def test_clock_def)

lemma allocated_test_world: "allocated test_world (Slice 0)"
  by (simp add: allocated_def test_world_def)

lemma test_batch_valid:
  "strategies \<noteq> [] \<Longrightarrow> \<forall>s \<in> set strategies. IsValid s \<Longrightarrow>
   snd (validateBatchSortRequest test_clock test_world (Slice 0) strategies) = None"
  by (simp add: validateBatchSortRequest_None test_world_def elems_def test_products_valid)

lemma IsValid_bogus: "\<not> IsValid ''bogus''"
  by (simp add: IsValid_def AllSortStrategies_def SortByPriceAsc_def SortByPriceDesc_def
      SortBySalesConversionRatio_def SortByCreatedAtAsc_def SortByCreatedAtDesc_def
      SortByName_def SortByPopularity_def SortByRevenue_def)

lemma negative_price_rejected:
  "Product_Validate now negative_price_product \<noteq> None"
  by (simp add: Product_Validate_def negative_price_product_def Let_def)

subsection \<open>Division by zero in the conversion ratio\<close>

text \<open>
  Claim C5. An item with a views count of 0 has the conversion ratio 0 exactly: a finite
  number, not NaN and not an infinity, and no error. Two such items tie on the ratio,
  and the conversion-ratio comparator then orders them by sales count (higher first)
  and, at equal sales, by id (lower first), as it does for any other tie.
\<close>

theorem zero_views_conversion_ratio:
  assumes "ViewsCount p = 0"
  shows "SalesConversionRatio p = Fin 0 \<and>
    (\<forall>q. ViewsCount q = 0 \<longrightarrow>
       SalesConversionRatioSorter_less p q =
         (if SalesCount p \<noteq> SalesCount q then sint (SalesCount q) < sint (SalesCount p)
          else sint (ID p) < sint (ID q)))"
  using assms
  by (simp add: SalesConversionRatio_def SalesConversionRatioSorter_less_def f64_ne_def)

theorem zero_views_conversion_ratio_witness:
  "ViewsCount \<lparr>ID = 7, Name = ''Lamp'', Price = Fin 5, CreatedAt = 100,
      SalesCount = 0, ViewsCount = 0\<rparr> = 0 \<and>
   SalesConversionRatio \<lparr>ID = 7, Name = ''Lamp'', Price = Fin 5, CreatedAt = 100,
      SalesCount = 0, ViewsCount = 0\<rparr> = Fin 0 \<and>
   SalesConversionRatioSorter_less
     \<lparr>ID = 7, Name = ''Lamp'', Price = Fin 5, CreatedAt = 100, SalesCount = 0, ViewsCount = 0\<rparr>
     \<lparr>ID = 9, Name = ''Desk'', Price = Fin 8, CreatedAt = 200, SalesCount = 0, ViewsCount = 0\<rparr>"
  using zero_views_conversion_ratio
    [of "\<lparr>ID = 7, Name = ''Lamp'', Price = Fin 5, CreatedAt = 100,
          SalesCount = 0, ViewsCount = 0\<rparr>"]
  by simp

subsection \<open>The output is a permutation of the input\<close>

text \<open>
  Claim C10. For every strategy and every collection that passes the validation of
  \<open>SortProducts\<close>, the call succeeds and the sorted sequence holds the same items as
  the input, each as often as the input does: no item is lost, duplicated or changed.
\<close>

theorem sort_output_is_permutation:
  assumes "snd (validateSortRequest clk w products strategy) = None"
  shows "\<exists>w' result. SortProducts clk w products strategy = (w', Inr result) \<and>
           mset (elems w' (Products result)) = mset (elems w products)"
  using SortProducts_valid[OF assms]
  by (auto simp: elems_def mset_insertionSort_func)

theorem sort_output_is_permutation_witness:
  "snd (validateSortRequest test_clock test_world (Slice 0) SortByPriceAsc) = None \<and>
   (\<exists>w' result. SortProducts test_clock test_world (Slice 0) SortByPriceAsc = (w', Inr result) \<and>
      mset (elems w' (Products result)) = mset (elems test_world (Slice 0)))"
  using sort_output_is_permutation[of test_clock test_world "Slice 0" SortByPriceAsc]
    test_request_valid[OF IsValid_SortByPriceAsc]
  by simp

subsection \<open>The count is preserved\<close>

text \<open>
  Claim C6. For every strategy and every collection that passes the validation, the
  empty collection included, the sorted sequence is as long as the input and the field
  \<open>ProductCount\<close> of the result is that length.
\<close>

theorem sort_preserves_count:
  assumes "snd (validateSortRequest clk w products strategy) = None"
  shows "\<exists>w' result. SortProducts clk w products strategy = (w', Inr result) \<and>
           len w' (Products result) = len w products \<and>
           ProductCount result = len w products"
  using SortProducts_valid[OF assms]
  by (auto simp: len_def elems_def length_insertionSort_func)

theorem sort_preserves_count_witness:
  "snd (validateSortRequest test_clock test_world (Slice 0) SortByPriceAsc) = None \<and>
   (\<exists>w' result. SortProducts test_clock test_world (Slice 0) SortByPriceAsc = (w', Inr result) \<and>
      len w' (Products result) = len test_world (Slice 0) \<and>
      ProductCount result = len test_world (Slice 0))"
  using sort_preserves_count[of test_clock test_world "Slice 0" SortByPriceAsc]
    test_request_valid[OF IsValid_SortByPriceAsc]
  by simp

subsection \<open>The caller's sequence is not changed\<close>

text \<open>
  Claim C4. After a call of \<open>SortProducts\<close> on a slice of the caller, whatever the
  strategy and the outcome, the caller's slice holds the same items in the same order
  and every array allocated before the call is as it was. The sorted sequence of a
  successful call is a different slice, over an array allocated by the call: the sort
  works on a copy.
\<close>

theorem sort_leaves_input_unchanged:
  assumes "allocated w products" and "SortProducts clk w products strategy = (w', r)"
  shows "elems w' products = elems w products \<and>
         (\<forall>a < next_free w. heap w' a = heap w a) \<and>
         (\<forall>result. r = Inr result \<longrightarrow>
            Products result \<noteq> products \<and> \<not> allocated w (Products result))"
  using assms SortProducts_frame[OF assms(2)]
  by (cases products) (auto simp: elems_def allocated_def)

theorem sort_leaves_input_unchanged_witness:
  "allocated test_world (Slice 0) \<and>
   elems (fst (SortProducts test_clock test_world (Slice 0) SortByPriceAsc)) (Slice 0)
     = elems test_world (Slice 0) \<and>
   (\<exists>result. snd (SortProducts test_clock test_world (Slice 0) SortByPriceAsc) = Inr result \<and>
      Products result \<noteq> Slice 0)"
proof -
  have a: "allocated test_world (Slice 0)"
    by (simp add: allocated_def test_world_def)
  obtain w' result where c:
    "SortProducts test_clock test_world (Slice 0) SortByPriceAsc = (w', Inr result)"
    using SortProducts_valid[OF test_request_valid[OF IsValid_SortByPriceAsc]] by blast
  show ?thesis
    using a c sort_leaves_input_unchanged[OF a c] by simp
qed

subsection \<open>Sorting a sorted sequence of up to 12 items\<close>

text \<open>
  Sorting the output of a sort again under the same strategy yields the same sequence,
  for every strategy and every comparator (a NaN price included), when the collection
  has up to 12 items: both calls run the insertion sort, and every comparator is
  asymmetric, so no element of a sorted slice moves. The statement is not made for a
  longer collection. There the library partitions around a pivot, and under the
  comparator by price a collection with a NaN price, which \<open>Product.Validate\<close> lets
  through, may be rearranged again by a second sort: so it is with the 13 prices
  12, 11, 10, 9, 8, 7, 6, NaN, 5, 4, 3, 2, 1.
\<close>

lemma sort_idempotent_small:
  assumes "SortProducts clk w products strategy = (w1, Inr r1)"
    and "SortProducts clk w1 (Products r1) strategy = (w2, Inr r2)"
    and "len w products \<le> 12"
  shows "elems w2 (Products r2) = elems w1 (Products r1)"
proof -
  obtain s1 where s1: "CreateSorter strategy = Inr s1"
    "elems w1 (Products r1) = insertionSort_func (comparator s1) (elems w products)"
    using SortProducts_elems[OF assms(1)] by blast
  obtain s2 where s2: "CreateSorter strategy = Inr s2"
    "elems w2 (Products r2) = insertionSort_func (comparator s2) (elems w1 (Products r1))"
    using SortProducts_elems[OF assms(2)] by blast
  have "s2 = s1" using s1(1) s2(1) by simp
  then show ?thesis
    using s1(2) s2(2) by (simp add: insertionSort_func_idem asymp_comparator)
qed

subsection \<open>The fixture\<close>

text \<open>
  Claim C9. On the three products of the fixture, sorting by ascending price yields
  C, A, B and sorting by conversion ratio yields B, C, A.
\<close>

theorem fixture_orders:
  "(\<exists>w' result.
      SortProducts test_clock test_world (Slice 0) SortByPriceAsc = (w', Inr result) \<and>
      elems w' (Products result) = [product_C, product_A, product_B]) \<and>
   (\<exists>w' result.
      SortProducts test_clock test_world (Slice 0) SortBySalesConversionRatio = (w', Inr result) \<and>
      elems w' (Products result) = [product_B, product_C, product_A])"
proof
  show "\<exists>w' result.
      SortProducts test_clock test_world (Slice 0) SortByPriceAsc = (w', Inr result) \<and>
      elems w' (Products result) = [product_C, product_A, product_B]"
    using SortProducts_valid[OF test_request_valid[OF IsValid_SortByPriceAsc]]
    by (auto simp: CreateSorter_SortByPriceAsc elems_def test_world_def sort_price_asc)
  show "\<exists>w' result.
      SortProducts test_clock test_world (Slice 0) SortBySalesConversionRatio = (w', Inr result) \<and>
      elems w' (Products result) = [product_B, product_C, product_A]"
    using SortProducts_valid[OF test_request_valid[OF IsValid_SortBySalesConversionRatio]]
    by (auto simp: CreateSorter_SortBySalesConversionRatio elems_def test_world_def sort_ratio)
qed

subsection \<open>When \<open>SortProducts\<close> fails\<close>

text \<open>
  Claim C2. \<open>SortProducts\<close> is to fail exactly when the collection is \<open>nil\<close>, the
  strategy is not registered, or some item violates an invariant of section 3. The code
  does so for every price that is a number (\<open>SortProducts_error_iff\<close> with
  \<open>spec_item_invariant_accepted\<close> and \<open>accepted_spec_item_invariant\<close>), and it
  sorts a non-nil empty collection to an empty result (\<open>SortProducts_empty\<close>). It
  fails to reject a price that is NaN: \<open>Product.Validate\<close> tests \<open>Price < 0\<close> and
  \<open>Price > 999999.99\<close>, both false for NaN, where \<open>Price.IsValid\<close> tests
  \<open>Price >= 0 && Price <= 999999.99\<close> and rejects it. The product below violates the
  invariant of the price, is rejected by \<open>Price.IsValid\<close>, and is sorted without an
  error.
\<close>

theorem nan_price_passes_validation:
  "\<not> spec_item_invariant (test_clock 0) nan_product \<and>
   \<not> Price_IsValid (Price nan_product) \<and>
   (\<exists>w' result. SortProducts test_clock nan_world (Slice 0) SortByPriceAsc = (w', Inr result))"
proof -
  have "Product_Validate (test_clock t) nan_product = None" for t
    by (simp add: Product_Validate_None_iff nan_product_def f64_gt_def test_clock_def
          parseDate_def f64_lt_NaN_right)
  then have "snd (validateSortRequest test_clock nan_world (Slice 0) SortByPriceAsc) = None"
    by (simp add: validateSortRequest_None IsValid_SortByPriceAsc nan_world_def elems_def)
  from SortProducts_valid[OF this] show ?thesis
    by (auto simp: spec_item_invariant_def nan_product_def f64_ge_def f64_le_def
          Price_IsValid_def)
qed

subsection \<open>A batch succeeds as a whole or does no sorting\<close>

text \<open>
  Claim C3. \<open>BatchSort\<close> validates the whole request before it sorts. It fails when
  the collection is \<open>nil\<close>, when the list of strategies is empty, when some requested
  strategy is not valid, and when \<open>Product.Validate\<close> rejects some item (the item at
  index \<open>k\<close> is validated at the \<open>k\<close>-th reading of the clock after the call); in each
  of these cases nothing was sorted: the store is as before the call, no array was
  allocated or written. In every other case it succeeds, and the result map has an
  entry for every requested strategy. So for every input it returns the full map or
  fails without having sorted anything. The clock is taken not to run backwards (every
  \<open>SortProducts\<close> of the loop validates the items again, at later readings), and the
  caller's slice to lie in allocated memory.
\<close>

theorem batch_all_or_nothing:
  assumes "mono clk" "allocated w products"
  shows
    "(products = nil \<or> strategies = [] \<or> (\<exists>s \<in> set strategies. \<not> IsValid s) \<or>
      (\<exists>k < len w products.
          Product_Validate (clk (ticks w + k)) (elems w products ! k) \<noteq> None)
      \<longrightarrow> (\<exists>w' err. BatchSort clk w products strategies = (w', Inl err) \<and>
             heap w' = heap w \<and> next_free w' = next_free w)) \<and>
     (products \<noteq> nil \<and> strategies \<noteq> [] \<and> (\<forall>s \<in> set strategies. IsValid s) \<and>
      (\<forall>k < len w products.
          Product_Validate (clk (ticks w + k)) (elems w products ! k) = None)
      \<longrightarrow> (\<exists>w' br. BatchSort clk w products strategies = (w', Inr br) \<and>
             fst ` set (Results br) = set strategies)) \<and>
     ((\<exists>w' br. BatchSort clk w products strategies = (w', Inr br) \<and>
         fst ` set (Results br) = set strategies) \<or>
      (\<exists>w' err. BatchSort clk w products strategies = (w', Inl err) \<and>
         heap w' = heap w \<and> next_free w' = next_free w))"
proof (cases "snd (validateBatchSortRequest clk w products strategies)")
  case None
  then have ok: "products \<noteq> nil" "strategies \<noteq> []" "\<forall>s \<in> set strategies. IsValid s"
    "\<forall>k < len w products.
        Product_Validate (clk (ticks w + k)) (elems w products ! k) = None"
    by (simp_all add: validateBatchSortRequest_None validate_each_Nil_iff len_def)
  obtain w' br where b: "BatchSort clk w products strategies = (w', Inr br)"
    using BatchSort_succeeds[OF assms None] by blast
  have "fst ` set (Results br) = set strategies"
    using BatchSort_results[OF assms(2) b] by simp
  then show ?thesis using ok b by auto
next
  case (Some err)
  then have bad: "\<not> (products \<noteq> nil \<and> strategies \<noteq> [] \<and>
      (\<forall>s \<in> set strategies. IsValid s) \<and>
      (\<forall>k < len w products.
          Product_Validate (clk (ticks w + k)) (elems w products ! k) = None))"
    using validateBatchSortRequest_None[of clk w products strategies]
    by (simp add: validate_each_Nil_iff len_def)
  obtain w' where f: "BatchSort clk w products strategies
        = (w', Inl (Wrapped ''batch sort request validation failed'' err))"
      "heap w' = heap w" "next_free w' = next_free w"
    using BatchSort_invalid[OF Some] by blast
  show ?thesis using bad f by blast
qed

theorem batch_all_or_nothing_witness:
  "mono test_clock \<and> allocated test_world (Slice 0) \<and> allocated test_world nil \<and>
   allocated invalid_item_world (Slice 0) \<and>
   (\<exists>w' err. BatchSort test_clock test_world (Slice 0) [] = (w', Inl err) \<and>
      heap w' = heap test_world \<and> next_free w' = next_free test_world) \<and>
   (\<exists>w' err. BatchSort test_clock test_world nil [SortByPriceAsc] = (w', Inl err) \<and>
      heap w' = heap test_world \<and> next_free w' = next_free test_world) \<and>
   (\<exists>w' err. BatchSort test_clock test_world (Slice 0) [SortByPriceAsc, ''bogus'']
                = (w', Inl err) \<and>
      heap w' = heap test_world \<and> next_free w' = next_free test_world) \<and>
   (\<exists>w' err. BatchSort test_clock invalid_item_world (Slice 0) [SortByPriceAsc]
                = (w', Inl err) \<and>
      heap w' = heap invalid_item_world \<and> next_free w' = next_free invalid_item_world) \<and>
   (\<exists>w' br. BatchSort test_clock test_world (Slice 0)
                [SortByPriceAsc, SortBySalesConversionRatio] = (w', Inr br) \<and>
      fst ` set (Results br) = {SortByPriceAsc, SortBySalesConversionRatio})"
proof -
  have a2: "allocated test_world nil" by (simp add: allocated_def)
  have a3: "allocated invalid_item_world (Slice 0)"
    by (simp add: allocated_def invalid_item_world_def)
  have bad_item: "\<exists>k < len invalid_item_world (Slice 0).
      Product_Validate (test_clock (ticks invalid_item_world + k))
        (elems invalid_item_world (Slice 0) ! k) \<noteq> None"
    using negative_price_rejected
    by (intro exI[of _ 1]) (simp add: len_def elems_def invalid_item_world_def)
  have good_items: "\<forall>k < len test_world (Slice 0).
      Product_Validate (test_clock (ticks test_world + k))
        (elems test_world (Slice 0) ! k) = None"
    using test_product_valid by (simp add: len_def elems_def test_world_def)
  have valid: "\<forall>s \<in> set [SortByPriceAsc, SortBySalesConversionRatio]. IsValid s"
    by (simp add: IsValid_SortByPriceAsc IsValid_SortBySalesConversionRatio)
  have c1: "\<exists>w' err. BatchSort test_clock test_world (Slice 0) [] = (w', Inl err) \<and>
      heap w' = heap test_world \<and> next_free w' = next_free test_world"
    using batch_all_or_nothing[OF mono_test_clock allocated_test_world, of "[]"] by simp
  have c2: "\<exists>w' err. BatchSort test_clock test_world nil [SortByPriceAsc] = (w', Inl err) \<and>
      heap w' = heap test_world \<and> next_free w' = next_free test_world"
    using batch_all_or_nothing[OF mono_test_clock a2, of "[SortByPriceAsc]"] by simp
  have c3: "\<exists>w' err. BatchSort test_clock test_world (Slice 0) [SortByPriceAsc, ''bogus'']
                = (w', Inl err) \<and>
      heap w' = heap test_world \<and> next_free w' = next_free test_world"
    using batch_all_or_nothing[OF mono_test_clock allocated_test_world,
        of "[SortByPriceAsc, ''bogus'']"] IsValid_bogus
    by simp
  have c4: "\<exists>w' err. BatchSort test_clock invalid_item_world (Slice 0) [SortByPriceAsc]
                = (w', Inl err) \<and>
      heap w' = heap invalid_item_world \<and> next_free w' = next_free invalid_item_world"
    using batch_all_or_nothing[OF mono_test_clock a3, of "[SortByPriceAsc]"] bad_item
    by blast
  have c5: "\<exists>w' br. BatchSort test_clock test_world (Slice 0)
                [SortByPriceAsc, SortBySalesConversionRatio] = (w', Inr br) \<and>
      fst ` set (Results br) = {SortByPriceAsc, SortBySalesConversionRatio}"
    using batch_all_or_nothing[OF mono_test_clock allocated_test_world,
        of "[SortByPriceAsc, SortBySalesConversionRatio]"] good_items valid
    by simp
  show ?thesis
    using mono_test_clock allocated_test_world a2 a3 c1 c2 c3 c4 c5 by blast
qed

subsection \<open>One entry for each distinct strategy of a batch\<close>

text \<open>
  Claim C8. In the result of a successful \<open>BatchSort\<close> the keys of \<open>Results\<close> are
  the requested strategies, each once, however often it was requested;
  \<open>StrategyCount\<close> is the number of entries, which is the number of distinct requested
  strategies; and the entry of a strategy holds what \<open>SortProducts\<close> returns for that
  strategy on the same input: the same sorted sequence, strategy and product count
  (the execution time and the time stamp are readings of the clock).
\<close>

theorem batch_one_entry_per_strategy:
  assumes "allocated w products" "BatchSort clk w products strategies = (w', Inr br)"
  shows "distinct (map fst (Results br)) \<and> fst ` set (Results br) = set strategies \<and>
         StrategyCount br = length (Results br) \<and>
         StrategyCount br = card (set strategies) \<and>
         (\<forall>(s, r) \<in> set (Results br).
            \<exists>w1 r1. SortProducts clk w products s = (w1, Inr r1) \<and>
              elems w' (Products r) = elems w1 (Products r1) \<and>
              Strategy r = Strategy r1 \<and> ProductCount r = ProductCount r1)"
proof -
  note R = BatchSort_results[OF assms]
  have v: "snd (validateBatchSortRequest clk w products strategies) = None"
    using BatchSort_Inr[OF assms(2)] by simp
  have card: "length (Results br) = card (set strategies)"
  proof -
    have "length (Results br) = length (map fst (Results br))" by simp
    also have "\<dots> = card (set (map fst (Results br)))"
      using R by (metis distinct_card)
    also have "\<dots> = card (set strategies)" using R by simp
    finally show ?thesis .
  qed
  have ent: "\<exists>w1 r1. SortProducts clk w products s = (w1, Inr r1) \<and>
              elems w' (Products r) = elems w1 (Products r1) \<and>
              Strategy r = Strategy r1 \<and> ProductCount r = ProductCount r1"
    if m: "(s, r) \<in> set (Results br)" for s r
  proof -
    have "s \<in> set strategies" using R m by force
    then have "snd (validateSortRequest clk w products s) = None"
      using v by (simp add: validateBatchSortRequest_None validateSortRequest_None)
    from SortProducts_valid[OF this] obtain sorter w1 r1 where
      c: "CreateSorter s = Inr sorter" and
      sp: "SortProducts clk w products s = (w1, Inr r1)" and
      r1: "elems w1 (Products r1) = insertionSort_func (comparator sorter) (elems w products)"
        "Strategy r1 = s" "ProductCount r1 = len w products"
      by (auto simp: elems_def)
    have "entry_sorted w' (elems w products) (s, r)" using R m by blast
    then have "elems w' (Products r) = insertionSort_func (comparator sorter) (elems w products)"
      "Strategy r = s" "ProductCount r = len w products"
      using c by (auto simp: entry_sorted_def elems_def len_def split: ProductCollection.splits)
    then show ?thesis using sp r1 by simp
  qed
  show ?thesis using R card ent by auto
qed

theorem batch_one_entry_per_strategy_witness:
  "allocated test_world (Slice 0) \<and>
   (\<exists>w' br. BatchSort test_clock test_world (Slice 0)
                [SortByPriceAsc, SortBySalesConversionRatio, SortByPriceAsc] = (w', Inr br) \<and>
      StrategyCount br = 2 \<and> length (Results br) = 2)"
proof -
  have v: "snd (validateBatchSortRequest test_clock test_world (Slice 0)
             [SortByPriceAsc, SortBySalesConversionRatio, SortByPriceAsc]) = None"
    by (rule test_batch_valid)
       (simp_all add: IsValid_SortByPriceAsc IsValid_SortBySalesConversionRatio)
  obtain w' br where b: "BatchSort test_clock test_world (Slice 0)
      [SortByPriceAsc, SortBySalesConversionRatio, SortByPriceAsc] = (w', Inr br)"
    using BatchSort_succeeds[OF mono_test_clock allocated_test_world v] by blast
  have ne: "SortByPriceAsc \<noteq> SortBySalesConversionRatio"
    by (simp add: SortByPriceAsc_def SortBySalesConversionRatio_def)
  have c: "card (set [SortByPriceAsc, SortBySalesConversionRatio, SortByPriceAsc]) = 2"
    using ne by (simp add: insert_commute)
  have "StrategyCount br = 2 \<and> length (Results br) = 2"
    using batch_one_entry_per_strategy[OF allocated_test_world b] c by metis
  then show ?thesis
    using allocated_test_world b by blast
qed

subsection \<open>A sorted permutation is unique under a total order\<close>

lemma sorted_wrt_unique:
  assumes "\<And>a b. a \<in> set xs \<Longrightarrow> b \<in> set xs \<Longrightarrow> a \<noteq> b \<Longrightarrow> lessf a b \<or> lessf b a"
    and "sorted_wrt (\<lambda>a b. \<not> lessf b a) xs" "sorted_wrt (\<lambda>a b. \<not> lessf b a) ys"
    and "mset xs = mset ys"
  shows "xs = ys"
  using assms
proof (induction xs arbitrary: ys)
  case Nil
  then show ?case by simp
next
  case (Cons x xs)
  from Cons.prems(4) obtain y ys' where ys: "ys = y # ys'"
    by (cases ys) auto
  have sets: "set (x # xs) = set (y # ys')"
    using Cons.prems(4) ys by (metis set_mset_mset)
  have xy: "x = y"
  proof (rule ccontr)
    assume ne: "x \<noteq> y"
    then have mem: "x \<in> set ys'" "y \<in> set xs" using sets by auto
    then have "\<not> lessf x y" "\<not> lessf y x"
      using Cons.prems(2,3) ys by auto
    moreover have "lessf x y \<or> lessf y x"
      using Cons.prems(1)[of x y] ne mem(2) by simp
    ultimately show False by blast
  qed
  have m: "mset xs = mset ys'" using Cons.prems(4) ys xy by simp
  have "xs = ys'"
  proof (rule Cons.IH)
    show "lessf a b \<or> lessf b a" if "a \<in> set xs" "b \<in> set xs" "a \<noteq> b" for a b
      using Cons.prems(1)[of a b] that by simp
    show "sorted_wrt (\<lambda>a b. \<not> lessf b a) xs" using Cons.prems(2) by simp
    show "sorted_wrt (\<lambda>a b. \<not> lessf b a) ys'" using Cons.prems(3) ys by simp
    show "mset xs = mset ys'" by (rule m)
  qed
  then show ?case using ys xy by simp
qed

lemma set_insertionSort_func: "set (insertionSort_func lessf xs) = set xs"
  by (rule mset_eq_setD) (rule mset_insertionSort_func)

lemma sorted_insertionSort_func:
  assumes "asymp lessf"
    and tr: "\<And>a b c. a \<in> set xs \<Longrightarrow> b \<in> set xs \<Longrightarrow> c \<in> set xs \<Longrightarrow>
               lessf a b \<Longrightarrow> lessf b c \<Longrightarrow> lessf a c"
    and tot: "\<And>a b. a \<in> set xs \<Longrightarrow> b \<in> set xs \<Longrightarrow> a \<noteq> b \<Longrightarrow> lessf a b \<or> lessf b a"
  shows "sorted_wrt (\<lambda>a b. \<not> lessf b a) (insertionSort_func lessf xs)"
proof -
  let ?out = "insertionSort_func lessf xs"
  have "successively (\<lambda>a b. \<not> lessf b a) ?out \<longleftrightarrow> sorted_wrt (\<lambda>a b. \<not> lessf b a) ?out"
  proof (rule successively_iff_sorted_wrt_strong)
    fix a b c
    assume "a \<in> set ?out" "b \<in> set ?out" "c \<in> set ?out"
    then have m: "a \<in> set xs" "b \<in> set xs" "c \<in> set xs"
      by (simp_all add: set_insertionSort_func)
    assume ba: "\<not> lessf b a" and cb: "\<not> lessf c b"
    show "\<not> lessf c a"
    proof
      assume ca: "lessf c a"
      have "a \<noteq> b" using ca cb by auto
      then have ab: "lessf a b" using tot[OF m(1) m(2)] ba by simp
      have "lessf c b" using tr[OF m(3) m(1) m(2) ca ab] .
      then show False using cb by simp
    qed
  qed
  then show ?thesis using ordered_insertionSort_func[OF assms(1), of xs] by simp
qed

lemma insertionSort_func_permutation:
  assumes as: "asymp lessf" and ms: "mset xs = mset ys"
    and tr: "\<forall>a \<in> set xs. \<forall>b \<in> set xs. \<forall>c \<in> set xs. lessf a b \<longrightarrow> lessf b c \<longrightarrow> lessf a c"
    and tot: "\<forall>a \<in> set xs. \<forall>b \<in> set xs. a \<noteq> b \<longrightarrow> lessf a b \<or> lessf b a"
  shows "insertionSort_func lessf xs = insertionSort_func lessf ys"
proof -
  have sxy: "set ys = set xs" by (rule mset_eq_setD[OF ms[symmetric]])
  have 1: "sorted_wrt (\<lambda>a b. \<not> lessf b a) (insertionSort_func lessf xs)"
  proof (rule sorted_insertionSort_func[OF as])
    fix a b c
    assume "a \<in> set xs" "b \<in> set xs" "c \<in> set xs" "lessf a b" "lessf b c"
    then show "lessf a c" using tr by blast
  next
    fix a b
    assume "a \<in> set xs" "b \<in> set xs" "a \<noteq> b"
    then show "lessf a b \<or> lessf b a" using tot by blast
  qed
  have 2: "sorted_wrt (\<lambda>a b. \<not> lessf b a) (insertionSort_func lessf ys)"
  proof (rule sorted_insertionSort_func[OF as])
    fix a b c
    assume "a \<in> set ys" "b \<in> set ys" "c \<in> set ys" "lessf a b" "lessf b c"
    then show "lessf a c" using tr unfolding sxy by blast
  next
    fix a b
    assume "a \<in> set ys" "b \<in> set ys" "a \<noteq> b"
    then show "lessf a b \<or> lessf b a" using tot unfolding sxy by blast
  qed
  have 3: "mset (insertionSort_func lessf xs) = mset (insertionSort_func lessf ys)"
    by (simp add: mset_insertionSort_func ms)
  show ?thesis
  proof (rule sorted_wrt_unique[OF _ 1 2 3])
    fix a b
    assume "a \<in> set (insertionSort_func lessf xs)" "b \<in> set (insertionSort_func lessf xs)"
      "a \<noteq> b"
    then show "lessf a b \<or> lessf b a"
      using tot unfolding set_insertionSort_func by blast
  qed
qed

subsection \<open>The comparators with an id tie-break are total orders\<close>

text \<open>
  The conversion ratio is never NaN. The revenue of a product that passed the validation
  is NaN only if its price is. On keys that are numbers the five comparators other than
  the one of the price are transitive, and they order any two products of different ids.
\<close>

lemma sint_neq:
  fixes a b :: "64 word"
  shows "a \<noteq> b \<Longrightarrow> sint a < sint b \<or> sint b < sint a"
  using signed_word_eqI[of a b, where 'a = int] by force

lemma SalesConversionRatio_not_NaN: "SalesConversionRatio p \<noteq> NaN"
proof (cases "ViewsCount p = 0")
  case True
  then show ?thesis by (simp add: SalesConversionRatio_def)
next
  case False
  obtain r1 where r1: "f64_of_int (sint (SalesCount p)) = Fin r1"
    using f64_of_sint[of "SalesCount p"] by blast
  obtain r2 where r2: "f64_of_int (sint (ViewsCount p)) = Fin r2" "r2 \<noteq> 0"
    using f64_of_sint[of "ViewsCount p"] False by blast
  show ?thesis
    using False by (simp add: SalesConversionRatio_def r1 r2 float64_round_not_NaN)
qed

lemma max_price_Fin: "\<exists>m. max_price = Fin m"
  using max_price_value by blast

lemma valid_price_Fin:
  assumes "Product_Validate now p = None" "Price p \<noteq> NaN"
  shows "\<exists>q. Price p = Fin q"
proof -
  obtain m where m: "max_price = Fin m" using max_price_Fin by blast
  from assms(1) have "\<not> f64_lt (Price p) (Fin 0)" "\<not> f64_gt (Price p) max_price"
    by (simp_all add: Product_Validate_None_iff)
  then show ?thesis using assms(2) by (cases "Price p") (auto simp: m f64_gt_def)
qed

lemma RevenueGenerated_not_NaN:
  assumes "Product_Validate now p = None" "Price p \<noteq> NaN"
  shows "RevenueGenerated p \<noteq> NaN"
proof -
  obtain q where q: "Price p = Fin q" using valid_price_Fin[OF assms] by blast
  obtain r where r: "f64_of_int (sint (SalesCount p)) = Fin r"
    using f64_of_sint[of "SalesCount p"] by blast
  show ?thesis by (simp add: RevenueGenerated_def q r float64_round_not_NaN)
qed

lemma CreatedAtSorter_less_trans:
  "CreatedAtSorter_less asc a b \<Longrightarrow> CreatedAtSorter_less asc b c \<Longrightarrow> CreatedAtSorter_less asc a c"
  by (auto simp: CreatedAtSorter_less_def Let_def split: if_splits)

lemma CreatedAtSorter_less_total:
  "ID a \<noteq> ID b \<Longrightarrow> CreatedAtSorter_less asc a b \<or> CreatedAtSorter_less asc b a"
  using sint_neq[of "ID a" "ID b"]
  by (auto simp: CreatedAtSorter_less_def Let_def split: if_splits)

lemma NameSorter_less_trans:
  "NameSorter_less a b \<Longrightarrow> NameSorter_less b c \<Longrightarrow> NameSorter_less a c"
  by (auto simp: NameSorter_less_def Let_def split: if_splits)

lemma NameSorter_less_total:
  "ID a \<noteq> ID b \<Longrightarrow> NameSorter_less a b \<or> NameSorter_less b a"
  using sint_neq[of "ID a" "ID b"]
  by (auto simp: NameSorter_less_def Let_def split: if_splits)

lemma PopularitySorter_less_trans:
  "PopularitySorter_less a b \<Longrightarrow> PopularitySorter_less b c \<Longrightarrow> PopularitySorter_less a c"
  by (auto simp: PopularitySorter_less_def split: if_splits)

lemma PopularitySorter_less_total:
  "ID a \<noteq> ID b \<Longrightarrow> PopularitySorter_less a b \<or> PopularitySorter_less b a"
  using sint_neq[of "ID a" "ID b"] sint_neq[of "SalesCount a" "SalesCount b"]
    sint_neq[of "ViewsCount a" "ViewsCount b"]
  by (auto simp: PopularitySorter_less_def split: if_splits)

lemma f64_ne_iff: "x \<noteq> NaN \<Longrightarrow> y \<noteq> NaN \<Longrightarrow> f64_ne x y \<longleftrightarrow> x \<noteq> y"
  by (simp add: f64_ne_def)

lemma float_key_trans:
  fixes k :: "Product \<Rightarrow> float64"
  assumes n: "k a \<noteq> NaN" "k b \<noteq> NaN" "k c \<noteq> NaN"
    and ab: "if f64_ne (k a) (k b) then f64_gt (k a) (k b)
             else if SalesCount a \<noteq> SalesCount b then sint (SalesCount b) < sint (SalesCount a)
             else sint (ID a) < sint (ID b)"
    and bc: "if f64_ne (k b) (k c) then f64_gt (k b) (k c)
             else if SalesCount b \<noteq> SalesCount c then sint (SalesCount c) < sint (SalesCount b)
             else sint (ID b) < sint (ID c)"
  shows "if f64_ne (k a) (k c) then f64_gt (k a) (k c)
         else if SalesCount a \<noteq> SalesCount c then sint (SalesCount c) < sint (SalesCount a)
         else sint (ID a) < sint (ID c)"
proof (cases "k a = k b")
  case True
  show ?thesis
  proof (cases "k b = k c")
    case True
    with \<open>k a = k b\<close> ab bc n show ?thesis
      by (auto simp: f64_ne_iff split: if_splits)
  next
    case False
    with \<open>k a = k b\<close> bc n show ?thesis
      by (simp add: f64_ne_iff)
  qed
next
  case False
  then have ab': "f64_lt (k b) (k a)" using ab n by (simp add: f64_ne_iff f64_gt_def)
  show ?thesis
  proof (cases "k b = k c")
    case True
    with False ab' n show ?thesis by (simp add: f64_ne_iff f64_gt_def)
  next
    case False
    then have "f64_lt (k c) (k b)" using bc n by (simp add: f64_ne_iff f64_gt_def)
    then have ca: "f64_lt (k c) (k a)" using ab' f64_lt_trans by blast
    then have "k a \<noteq> k c" using f64_lt_irrefl by auto
    then show ?thesis using ca n by (simp add: f64_ne_iff f64_gt_def)
  qed
qed

lemma float_key_total:
  fixes k :: "Product \<Rightarrow> float64"
  assumes n: "k a \<noteq> NaN" "k b \<noteq> NaN" and ne: "ID a \<noteq> ID b"
  shows "(if f64_ne (k a) (k b) then f64_gt (k a) (k b)
          else if SalesCount a \<noteq> SalesCount b then sint (SalesCount b) < sint (SalesCount a)
          else sint (ID a) < sint (ID b)) \<or>
         (if f64_ne (k b) (k a) then f64_gt (k b) (k a)
          else if SalesCount b \<noteq> SalesCount a then sint (SalesCount a) < sint (SalesCount b)
          else sint (ID b) < sint (ID a))"
proof (cases "k a = k b")
  case True
  then show ?thesis
    using n sint_neq[OF ne] sint_neq[of "SalesCount a" "SalesCount b"]
    by (auto simp: f64_ne_iff)
next
  case False
  then show ?thesis
    using n f64_lt_total[OF n] by (auto simp: f64_ne_iff f64_gt_def)
qed

lemma SalesConversionRatioSorter_less_trans:
  "SalesConversionRatioSorter_less a b \<Longrightarrow> SalesConversionRatioSorter_less b c \<Longrightarrow>
   SalesConversionRatioSorter_less a c"
  unfolding SalesConversionRatioSorter_less_def Let_def
  by (rule float_key_trans[where k = SalesConversionRatio and b = b])
     (simp_all add: SalesConversionRatio_not_NaN)

lemma SalesConversionRatioSorter_less_total:
  "ID a \<noteq> ID b \<Longrightarrow>
   SalesConversionRatioSorter_less a b \<or> SalesConversionRatioSorter_less b a"
  unfolding SalesConversionRatioSorter_less_def Let_def
  by (rule float_key_total[where k = SalesConversionRatio])
     (simp_all add: SalesConversionRatio_not_NaN)

lemma RevenueSorter_less_trans:
  "RevenueGenerated a \<noteq> NaN \<Longrightarrow> RevenueGenerated b \<noteq> NaN \<Longrightarrow> RevenueGenerated c \<noteq> NaN \<Longrightarrow>
   RevenueSorter_less a b \<Longrightarrow> RevenueSorter_less b c \<Longrightarrow> RevenueSorter_less a c"
  unfolding RevenueSorter_less_def Let_def
  by (rule float_key_trans[where k = RevenueGenerated and b = b])

lemma RevenueSorter_less_total:
  "RevenueGenerated a \<noteq> NaN \<Longrightarrow> RevenueGenerated b \<noteq> NaN \<Longrightarrow> ID a \<noteq> ID b \<Longrightarrow>
   RevenueSorter_less a b \<or> RevenueSorter_less b a"
  unfolding RevenueSorter_less_def Let_def
  by (rule float_key_total[where k = RevenueGenerated])

lemma CreateSorter_PriceSorter:
  "CreateSorter strategy = Inr (PriceSorter asc) \<Longrightarrow>
   strategy = SortByPriceAsc \<or> strategy = SortByPriceDesc"
  by (auto simp: CreateSorter_def split: if_splits)

lemma CreateSorter_RevenueSorter:
  "CreateSorter strategy = Inr RevenueSorter \<Longrightarrow> strategy = SortByRevenue"
  by (auto simp: CreateSorter_def split: if_splits)

lemma comparator_trans_on:
  assumes "\<forall>asc. s \<noteq> PriceSorter asc"
    and "s = RevenueSorter \<longrightarrow> (\<forall>p \<in> S. RevenueGenerated p \<noteq> NaN)"
  shows "\<forall>a \<in> S. \<forall>b \<in> S. \<forall>c \<in> S.
           comparator s a b \<longrightarrow> comparator s b c \<longrightarrow> comparator s a c"
proof (cases s)
  case (PriceSorter asc)
  then show ?thesis using assms(1) by simp
next
  case SalesConversionRatioSorter
  then show ?thesis using SalesConversionRatioSorter_less_trans by auto
next
  case (CreatedAtSorter asc)
  then show ?thesis using CreatedAtSorter_less_trans by auto
next
  case PopularitySorter
  then show ?thesis using PopularitySorter_less_trans by auto
next
  case RevenueSorter
  then have "\<forall>p \<in> S. RevenueGenerated p \<noteq> NaN" using assms(2) by simp
  then show ?thesis unfolding RevenueSorter comparator.simps
    by (meson RevenueSorter_less_trans)
next
  case NameSorter
  then show ?thesis using NameSorter_less_trans by auto
qed

lemma comparator_total_on:
  assumes "\<forall>asc. s \<noteq> PriceSorter asc"
    and "s = RevenueSorter \<longrightarrow> (\<forall>p \<in> S. RevenueGenerated p \<noteq> NaN)"
    and "inj_on ID S"
  shows "\<forall>a \<in> S. \<forall>b \<in> S. a \<noteq> b \<longrightarrow> comparator s a b \<or> comparator s b a"
proof (intro ballI impI)
  fix a b assume ab: "a \<in> S" "b \<in> S" "a \<noteq> b"
  then have ne: "ID a \<noteq> ID b" using assms(3) by (auto dest: inj_onD)
  show "comparator s a b \<or> comparator s b a"
  proof (cases s)
    case (PriceSorter asc)
    then show ?thesis using assms(1) by simp
  next
    case SalesConversionRatioSorter
    then show ?thesis using SalesConversionRatioSorter_less_total[OF ne] by simp
  next
    case (CreatedAtSorter asc)
    then show ?thesis using CreatedAtSorter_less_total[OF ne] by simp
  next
    case PopularitySorter
    then show ?thesis using PopularitySorter_less_total[OF ne] by simp
  next
    case RevenueSorter
    then show ?thesis using assms(2) ab RevenueSorter_less_total[OF _ _ ne] by simp
  next
    case NameSorter
    then show ?thesis using NameSorter_less_total[OF ne] by simp
  qed
qed

lemma SortProducts_items_valid:
  assumes "SortProducts clk w products strategy = (w', Inr r)" "p \<in> set (elems w products)"
  shows "\<exists>now. Product_Validate now p = None"
proof -
  have "validate_each clk (ticks w) 0 (elems w products) = []"
    using SortProducts_Inr_valid[OF assms(1)] by (simp add: validateSortRequest_None)
  then have "\<forall>k < length (elems w products).
      Product_Validate (clk (ticks w + k)) (elems w products ! k) = None"
    by (simp add: validate_each_Nil_iff)
  moreover obtain k where "k < length (elems w products)" "elems w products ! k = p"
    using assms(2) by (auto simp: in_set_conv_nth)
  ultimately show ?thesis by blast
qed

lemma IsValid_SortByRevenue: "IsValid SortByRevenue"
  by (simp add: IsValid_def AllSortStrategies_def)

lemma test_request_permuted_valid:
  "IsValid strategy \<Longrightarrow>
   snd (validateSortRequest test_clock test_world_permuted (Slice 0) strategy) = None"
proof -
  have "validate_each test_clock 0 0 [product_C, product_A, product_B] = []"
    by (rule test_products_valid) (simp add: GetTestProducts_def)
  then show "IsValid strategy \<Longrightarrow>
      snd (validateSortRequest test_clock test_world_permuted (Slice 0) strategy) = None"
    by (simp add: validateSortRequest_None test_world_permuted_def elems_def)
qed

lemma test_prices_not_NaN:
  "Price product_A \<noteq> NaN \<and> Price product_B \<noteq> NaN \<and> Price product_C \<noteq> NaN"
  by (simp add: product_A_def product_B_def product_C_def float64_round_not_NaN)

lemma price_100: "float64_round 100 = Fin 100"
  using float64_round_cert[of 100 6 7036874417766400] by (simp add: pow2_def)

lemma tie_product_valid:
  "Product_Validate (test_clock t) tie_a = None \<and> Product_Validate (test_clock t) tie_b = None"
  by (simp add: Product_Validate_None_iff tie_a_def tie_b_def test_clock_def parseDate_def
        price_100 max_price_value f64_gt_def)

lemma tie_valid_ab:
  "snd (validateSortRequest test_clock tie_world_ab (Slice 0) SortByPriceAsc) = None"
  by (simp add: validateSortRequest_None IsValid_SortByPriceAsc tie_world_ab_def elems_def
        validate_each_Nil_iff tie_product_valid less_Suc_eq)

lemma tie_valid_ba:
  "snd (validateSortRequest test_clock tie_world_ba (Slice 0) SortByPriceAsc) = None"
  by (simp add: validateSortRequest_None IsValid_SortByPriceAsc tie_world_ba_def elems_def
        validate_each_Nil_iff tie_product_valid less_Suc_eq)

lemma tie_sort_ab: "insertionSort_func (PriceSorter_less True) [tie_a, tie_b] = [tie_a, tie_b]"
  by (simp add: insertionSort_func_fold PriceSorter_less_def tie_a_def tie_b_def price_100)

lemma tie_sort_ba: "insertionSort_func (PriceSorter_less True) [tie_b, tie_a] = [tie_b, tie_a]"
  by (simp add: insertionSort_func_fold PriceSorter_less_def tie_a_def tie_b_def price_100)

subsection \<open>The output does not depend on the order of the input\<close>

text \<open>
  Claim C1, amended. For every strategy other than the two by price, two successful
  sorts of collections that hold the same items, with pairwise distinct ids, yield the
  same sequence; for the revenue strategy no price is NaN. The two price comparators
  compare the price only, so they are left out.
\<close>

theorem tie_break_fixes_order:
  assumes c1: "SortProducts clk w products strategy = (w', Inr r)"
    and c2: "SortProducts clk2 w2 products2 strategy = (w2', Inr r2)"
    and perm: "mset (elems w2 products2) = mset (elems w products)"
    and ids: "distinct (map ID (elems w products))"
    and np: "strategy \<noteq> SortByPriceAsc" "strategy \<noteq> SortByPriceDesc"
    and nan: "strategy = SortByRevenue \<longrightarrow> (\<forall>p \<in> set (elems w products). Price p \<noteq> NaN)"
  shows "elems w2' (Products r2) = elems w' (Products r)"
proof -
  let ?xs = "elems w products" and ?ys = "elems w2 products2"
  obtain s where s: "CreateSorter strategy = Inr s"
    "elems w' (Products r) = insertionSort_func (comparator s) ?xs"
    using SortProducts_elems[OF c1] by blast
  obtain s2 where s2: "CreateSorter strategy = Inr s2"
    "elems w2' (Products r2) = insertionSort_func (comparator s2) ?ys"
    using SortProducts_elems[OF c2] by blast
  have same: "s2 = s" using s(1) s2(1) by simp
  have notprice: "\<forall>asc. s \<noteq> PriceSorter asc"
    using s(1) np CreateSorter_PriceSorter by blast
  have rev: "s = RevenueSorter \<longrightarrow> (\<forall>p \<in> set ?xs. RevenueGenerated p \<noteq> NaN)"
  proof (intro impI ballI)
    fix p assume "s = RevenueSorter" and p: "p \<in> set ?xs"
    then have "strategy = SortByRevenue" using s(1) CreateSorter_RevenueSorter by blast
    then have "Price p \<noteq> NaN" using nan p by blast
    moreover obtain now where "Product_Validate now p = None"
      using SortProducts_items_valid[OF c1 p] by blast
    ultimately show "RevenueGenerated p \<noteq> NaN" using RevenueGenerated_not_NaN by blast
  qed
  have inj: "inj_on ID (set ?xs)" using ids by (simp add: distinct_map)
  have "insertionSort_func (comparator s) ?xs = insertionSort_func (comparator s) ?ys"
    using asymp_comparator perm[symmetric] comparator_trans_on[OF notprice rev]
      comparator_total_on[OF notprice rev inj]
    by (rule insertionSort_func_permutation)
  then show ?thesis using s(2) s2(2) same by simp
qed

theorem tie_break_fixes_order_witness:
  "\<exists>w' r w2' r2.
     SortProducts test_clock test_world (Slice 0) SortByRevenue = (w', Inr r) \<and>
     SortProducts test_clock test_world_permuted (Slice 0) SortByRevenue = (w2', Inr r2) \<and>
     mset (elems test_world_permuted (Slice 0)) = mset (elems test_world (Slice 0)) \<and>
     distinct (map ID (elems test_world (Slice 0))) \<and>
     SortByRevenue \<noteq> SortByPriceAsc \<and> SortByRevenue \<noteq> SortByPriceDesc \<and>
     Price product_A \<noteq> NaN \<and> Price product_B \<noteq> NaN \<and> Price product_C \<noteq> NaN \<and>
     elems w2' (Products r2) = elems w' (Products r)"
proof -
  obtain w' r where c1:
    "SortProducts test_clock test_world (Slice 0) SortByRevenue = (w', Inr r)"
    using SortProducts_valid[OF test_request_valid[OF IsValid_SortByRevenue]] by blast
  obtain w2' r2 where c2:
    "SortProducts test_clock test_world_permuted (Slice 0) SortByRevenue = (w2', Inr r2)"
    using SortProducts_valid[OF test_request_permuted_valid[OF IsValid_SortByRevenue]] by blast
  have e1: "elems test_world (Slice 0) = [product_A, product_B, product_C]"
    by (simp add: elems_def test_world_def GetTestProducts_def)
  have e2: "elems test_world_permuted (Slice 0) = [product_C, product_A, product_B]"
    by (simp add: elems_def test_world_permuted_def)
  have perm: "mset (elems test_world_permuted (Slice 0)) = mset (elems test_world (Slice 0))"
    by (simp add: e1 e2)
  have ids: "distinct (map ID (elems test_world (Slice 0)))"
    by (simp add: e1 product_A_def product_B_def product_C_def)
  have np: "SortByRevenue \<noteq> SortByPriceAsc" "SortByRevenue \<noteq> SortByPriceDesc"
    by (simp_all add: SortByRevenue_def SortByPriceAsc_def SortByPriceDesc_def)
  have nan: "SortByRevenue = SortByRevenue \<longrightarrow>
      (\<forall>p \<in> set (elems test_world (Slice 0)). Price p \<noteq> NaN)"
    using test_prices_not_NaN by (simp add: e1)
  show ?thesis
    using c1 c2 perm ids np test_prices_not_NaN
      tie_break_fixes_order[OF c1 c2 perm ids np nan]
    by blast
qed

text \<open>
  Claim C1 as stated fails for the price strategies: \<open>PriceSorter\<close> has no tie-break
  by id, and \<open>sort.Slice\<close> leaves two products of equal price in the order of the
  input. Both orders of the two products below are valid collections with distinct
  ids; sorted by ascending price, each comes back in its own order.
\<close>

theorem price_ties_follow_input_order:
  "mset (elems tie_world_ba (Slice 0)) = mset (elems tie_world_ab (Slice 0)) \<and>
   distinct (map ID (elems tie_world_ab (Slice 0))) \<and>
   snd (validateSortRequest test_clock tie_world_ab (Slice 0) SortByPriceAsc) = None \<and>
   snd (validateSortRequest test_clock tie_world_ba (Slice 0) SortByPriceAsc) = None \<and>
   \<not> isl (snd (SortProducts test_clock tie_world_ab (Slice 0) SortByPriceAsc)) \<and>
   \<not> isl (snd (SortProducts test_clock tie_world_ba (Slice 0) SortByPriceAsc)) \<and>
   elems (fst (SortProducts test_clock tie_world_ab (Slice 0) SortByPriceAsc))
     (Products (projr (snd (SortProducts test_clock tie_world_ab (Slice 0) SortByPriceAsc))))
     = [tie_a, tie_b] \<and>
   elems (fst (SortProducts test_clock tie_world_ba (Slice 0) SortByPriceAsc))
     (Products (projr (snd (SortProducts test_clock tie_world_ba (Slice 0) SortByPriceAsc))))
     = [tie_b, tie_a] \<and>
   [tie_a, tie_b] \<noteq> [tie_b, tie_a]"
proof -
  have ab: "elems tie_world_ab (Slice 0) = [tie_a, tie_b]"
    by (simp add: elems_def tie_world_ab_def)
  have ba: "elems tie_world_ba (Slice 0) = [tie_b, tie_a]"
    by (simp add: elems_def tie_world_ba_def)
  have ne: "tie_a \<noteq> tie_b" by (simp add: tie_a_def tie_b_def)
  have ids: "distinct (map ID [tie_a, tie_b])" by (simp add: tie_a_def tie_b_def)
  show ?thesis
    using SortProducts_valid[OF tie_valid_ab] SortProducts_valid[OF tie_valid_ba]
      tie_valid_ab tie_valid_ba ne ids
    by (auto simp: ab ba CreateSorter_SortByPriceAsc tie_sort_ab tie_sort_ba elems_def
          tie_world_ab_def tie_world_ba_def)
qed

end
